theory Spec2Isabelle
  imports Complex_Main "HOL-Library.AList" "HOL-Library.Sublist"
begin

section \<open>Bridge STAAD Builder: the truss geometry generator and the model exporter\<close>

text \<open>
  A shallow embedding of \<^verbatim>\<open>compute_geometry\<close> and \<^verbatim>\<open>run_in_staad\<close> of
  \<^verbatim>\<open>main.py\<close>.

  Python's unbounded integers are \<^typ>\<open>int\<close>. Python's floats are modelled by \<^typ>\<open>real\<close>:
  sums, products and \<^verbatim>\<open>span / panels\<close> are exact, and \<^verbatim>\<open>round(v, 4)\<close> rounds the exact
  value to the nearest multiple of \<open>1/10000\<close>, ties to the even multiple; the binary
  rounding of the single float operations is outside the model. \<^verbatim>\<open>math.sin\<close> and
  \<^verbatim>\<open>math.pi\<close> belong to the library, not to the program, and a float sine of a float
  \<open>pi\<close> is not the real one (\<^verbatim>\<open>math.sin(math.pi)\<close> is \<open>1.22e-16\<close>, not \<open>0\<close>): the
  generator takes them as a parameter. What is proved of it holds for every library; the
  one theorem that needs facts about the library (the Bowstring arch) states them.

  Strings are lists of the code points below 256 (Latin-1), one \<^typ>\<open>char\<close> each.

  Dictionaries are association lists in insertion order (the exporter iterates over them),
  with Python's assignment semantics: an existing key keeps its position and gets the new
  value, a new key is appended. Every exception the source can raise is a value of
  \<open>error\<close>, and a function that can raise returns \<open>error + 'a\<close>.
\<close>

subsection \<open>Errors and their propagation\<close>

datatype error = ZeroDivisionError | IndexError | KeyError | ServiceError

definition bind_res :: "error + 'a \<Rightarrow> ('a \<Rightarrow> error + 'b) \<Rightarrow> error + 'b" where
  "bind_res m f = (case m of Inl e \<Rightarrow> Inl e | Inr x \<Rightarrow> f x)"

text \<open>\<^verbatim>\<open>xs[i]\<close>: a negative index counts from the end, out of range raises.\<close>

definition idx :: "'a list \<Rightarrow> int \<Rightarrow> error + 'a" where
  "idx xs i =
     (if 0 \<le> i \<and> i < int (length xs) then Inr (xs ! nat i)
      else if - int (length xs) \<le> i \<and> i < 0 then Inr (xs ! nat (int (length xs) + i))
      else Inl IndexError)"

text \<open>\<^verbatim>\<open>range(n)\<close>: the integers \<open>0, ..., n - 1\<close>, empty when \<open>n \<le> 0\<close>.\<close>

definition range_int :: "int \<Rightarrow> int list" where
  "range_int n = [0..n - 1]"

text \<open>A \<^verbatim>\<open>for\<close> loop whose body can raise: the first exception ends the loop.\<close>

fun for_loop :: "(int \<Rightarrow> 's \<Rightarrow> error + 's) \<Rightarrow> int list \<Rightarrow> 's \<Rightarrow> error + 's" where
  "for_loop body [] s = Inr s"
| "for_loop body (i # is) s =
     (case body i s of Inl e \<Rightarrow> Inl e | Inr s' \<Rightarrow> for_loop body is s')"

subsection \<open>Strings: \<^verbatim>\<open>btype.lower().split()[0]\<close>\<close>

text \<open>
  \<^verbatim>\<open>str.lower\<close>: the letters \<open>A\<close> to \<open>Z\<close> and the Latin-1 capitals \<open>U+00C0\<close> to
  \<open>U+00DE\<close> (without the multiplication sign \<open>U+00D7\<close>) go to the code point 32 higher;
  every other character is kept.
\<close>

definition lower_char :: "char \<Rightarrow> char" where
  "lower_char c =
     (case map_of
             (zip (''ABCDEFGHIJKLMNOPQRSTUVWXYZ'' @
                   [CHR 0xC0, CHR 0xC1, CHR 0xC2, CHR 0xC3, CHR 0xC4, CHR 0xC5, CHR 0xC6,
                    CHR 0xC7, CHR 0xC8, CHR 0xC9, CHR 0xCA, CHR 0xCB, CHR 0xCC, CHR 0xCD,
                    CHR 0xCE, CHR 0xCF, CHR 0xD0, CHR 0xD1, CHR 0xD2, CHR 0xD3, CHR 0xD4,
                    CHR 0xD5, CHR 0xD6, CHR 0xD8, CHR 0xD9, CHR 0xDA, CHR 0xDB, CHR 0xDC,
                    CHR 0xDD, CHR 0xDE])
                  (''abcdefghijklmnopqrstuvwxyz'' @
                   [CHR 0xE0, CHR 0xE1, CHR 0xE2, CHR 0xE3, CHR 0xE4, CHR 0xE5, CHR 0xE6,
                    CHR 0xE7, CHR 0xE8, CHR 0xE9, CHR 0xEA, CHR 0xEB, CHR 0xEC, CHR 0xED,
                    CHR 0xEE, CHR 0xEF, CHR 0xF0, CHR 0xF1, CHR 0xF2, CHR 0xF3, CHR 0xF4,
                    CHR 0xF5, CHR 0xF6, CHR 0xF8, CHR 0xF9, CHR 0xFA, CHR 0xFB, CHR 0xFC,
                    CHR 0xFD, CHR 0xFE]))
             c of
        Some d \<Rightarrow> d
      | None \<Rightarrow> c)"

definition lower :: "string \<Rightarrow> string" where
  "lower s = map lower_char s"

text \<open>
  The whitespace that \<^verbatim>\<open>str.split()\<close> separates on (\<^verbatim>\<open>str.isspace\<close>), among the code
  points below 256: the space, \<open>U+0009\<close> to \<open>U+000D\<close>, \<open>U+001C\<close> to \<open>U+001F\<close>, the next-line
  control \<open>U+0085\<close> and the no-break space \<open>U+00A0\<close>.
\<close>

definition is_space :: "char \<Rightarrow> bool" where
  "is_space c \<longleftrightarrow>
     c \<in> set [CHR '' '', CHR 0x09, CHR 0x0A, CHR 0x0B, CHR 0x0C, CHR 0x0D,
              CHR 0x1C, CHR 0x1D, CHR 0x1E, CHR 0x1F, CHR 0x85, CHR 0xA0]"

text \<open>
  \<^verbatim>\<open>str.split()\<close> without arguments: the maximal runs of non-whitespace characters.
  The second argument is the word being read, reversed.
\<close>

fun split_acc :: "string \<Rightarrow> string \<Rightarrow> string list" where
  "split_acc [] cur = (if cur = [] then [] else [rev cur])"
| "split_acc (c # cs) cur =
     (if is_space c
      then (if cur = [] then split_acc cs [] else rev cur # split_acc cs [])
      else split_acc cs (c # cur))"

definition split_ws :: "string \<Rightarrow> string list" where
  "split_ws s = split_acc s []"

definition btype_key :: "string \<Rightarrow> error + string" where
  "btype_key btype = idx (split_ws (lower btype)) 0"

subsection \<open>Rounding to four decimal places\<close>

definition round_half_even :: "real \<Rightarrow> int" where
  "round_half_even v =
     (let f = \<lfloor>v\<rfloor>; d = v - of_int f
      in if d < 1 / 2 then f
         else if 1 / 2 < d then f + 1
         else if even f then f else f + 1)"

definition round4 :: "real \<Rightarrow> real" where
  "round4 v = of_int (round_half_even (v * 10000)) / 10000"

text \<open>A value is rounded to four decimal places when rounding leaves it as it is.\<close>

definition rounded4 :: "real \<Rightarrow> bool" where
  "rounded4 v \<longleftrightarrow> round4 v = v"

subsection \<open>The geometry generator\<close>

type_synonym coord = "real \<times> real \<times> real"

text \<open>
  What the generator takes from Python's \<^verbatim>\<open>math\<close> module: the function \<^verbatim>\<open>math.sin\<close> and
  the constant \<^verbatim>\<open>math.pi\<close>.
\<close>

record mathlib =
  math_sin :: "real \<Rightarrow> real"
  math_pi :: real

text \<open>
  The variables of the node phase: \<^verbatim>\<open>nodes\<close>, \<^verbatim>\<open>nid\<close>, \<^verbatim>\<open>bottom\<close> and \<^verbatim>\<open>top\<close> (here
  \<open>top_n\<close>, its name in the exporter).
\<close>

record nstate =
  nodes :: "(int \<times> coord) list"
  nid :: int
  bottom :: "int list"
  top_n :: "int list"

text \<open>\<^verbatim>\<open>nodes[nid] = c; bottom.append(nid); nid += 1\<close>\<close>

definition put_bottom :: "coord \<Rightarrow> nstate \<Rightarrow> nstate" where
  "put_bottom c s =
     s\<lparr>nodes := AList.update (nid s) c (nodes s),
       bottom := bottom s @ [nid s],
       nid := nid s + 1\<rparr>"

text \<open>\<^verbatim>\<open>nodes[nid] = c; top.append(nid); nid += 1\<close>\<close>

definition put_top :: "coord \<Rightarrow> nstate \<Rightarrow> nstate" where
  "put_top c s =
     s\<lparr>nodes := AList.update (nid s) c (nodes s),
       top_n := top_n s @ [nid s],
       nid := nid s + 1\<rparr>"

definition bottom_nodes :: "real \<Rightarrow> int \<Rightarrow> nstate \<Rightarrow> nstate" where
  "bottom_nodes panel_w panels =
     fold (\<lambda>i. put_bottom (round4 (of_int i * panel_w), 0, 0)) (range_int (panels + 1))"

definition top_nodes ::
  "mathlib \<Rightarrow> real \<Rightarrow> real \<Rightarrow> int \<Rightarrow> string \<Rightarrow> nstate \<Rightarrow> nstate" where
  "top_nodes lib panel_w height panels key =
     (if key = ''warren'' then
        fold (\<lambda>i. put_top (round4 ((of_int i + 0.5) * panel_w), height, 0)) (range_int panels)
      else if key = ''bowstring'' then
        fold (\<lambda>i. put_top (round4 (of_int i * panel_w),
                            round4 (height *
                                    math_sin lib ((of_int i / of_int panels) * math_pi lib)),
                            0))
             (range_int (panels + 1))
      else
        fold (\<lambda>i. put_top (round4 (of_int i * panel_w), height, 0)) (range_int (panels + 1)))"

text \<open>
  The variables of the member phase: \<^verbatim>\<open>members\<close>, \<^verbatim>\<open>mid_\<close> (here \<open>mid\<close>) and the four
  role lists.
\<close>

record mstate =
  members :: "(int \<times> (int \<times> int)) list"
  mid :: int
  bot_ch :: "int list"
  top_ch :: "int list"
  verts :: "int list"
  diags :: "int list"

datatype role = BottomChord | TopChord | Vertical | Diagonal

fun append_role :: "role \<Rightarrow> int \<Rightarrow> mstate \<Rightarrow> mstate" where
  "append_role BottomChord m s = s\<lparr>bot_ch := bot_ch s @ [m]\<rparr>"
| "append_role TopChord m s = s\<lparr>top_ch := top_ch s @ [m]\<rparr>"
| "append_role Vertical m s = s\<lparr>verts := verts s @ [m]\<rparr>"
| "append_role Diagonal m s = s\<lparr>diags := diags s @ [m]\<rparr>"

text \<open>\<^verbatim>\<open>members[mid_] = e; <role list>.append(mid_); mid_ += 1\<close>\<close>

definition add_member :: "role \<Rightarrow> int \<times> int \<Rightarrow> mstate \<Rightarrow> mstate" where
  "add_member r e s =
     (append_role r (mid s) (s\<lparr>members := AList.update (mid s) e (members s)\<rparr>))
       \<lparr>mid := mid s + 1\<rparr>"

text \<open>
  One member between \<^verbatim>\<open>xs[i]\<close> and \<^verbatim>\<open>ys[j]\<close>: the right-hand side is evaluated first,
  so an index out of range raises before anything is stored.
\<close>

definition connect :: "role \<Rightarrow> int list \<Rightarrow> int \<Rightarrow> int list \<Rightarrow> int \<Rightarrow> mstate \<Rightarrow> error + mstate" where
  "connect r xs i ys j s =
     bind_res (idx xs i) (\<lambda>a. bind_res (idx ys j) (\<lambda>b. Inr (add_member r (a, b) s)))"

definition bottom_chords :: "int list \<Rightarrow> int \<Rightarrow> mstate \<Rightarrow> error + mstate" where
  "bottom_chords bn panels =
     for_loop (\<lambda>i. connect BottomChord bn i bn (i + 1)) (range_int panels)"

definition warren_members :: "int list \<Rightarrow> int list \<Rightarrow> int \<Rightarrow> mstate \<Rightarrow> error + mstate" where
  "warren_members bn tn panels s =
     bind_res (for_loop (\<lambda>i. connect TopChord tn i tn (i + 1)) (range_int (panels - 1)) s)
       (for_loop (\<lambda>i s. bind_res (connect Diagonal bn i tn i s)
                           (connect Diagonal tn i bn (i + 1)))
                 (range_int panels))"

definition pratt_howe_members ::
  "string \<Rightarrow> int list \<Rightarrow> int list \<Rightarrow> int \<Rightarrow> mstate \<Rightarrow> error + mstate" where
  "pratt_howe_members key bn tn panels s =
     bind_res (for_loop (\<lambda>i. connect TopChord tn i tn (i + 1)) (range_int panels) s) (\<lambda>s.
     bind_res (for_loop (\<lambda>i. connect Vertical bn i tn i) (range_int (panels + 1)) s) (\<lambda>s.
       (let half = panels div 2 in
        for_loop (\<lambda>i.
            if key = ''pratt'' then
              (if i < half then connect Diagonal tn i bn (i + 1)
               else connect Diagonal bn i tn (i + 1))
            else
              (if i < half then connect Diagonal bn i tn (i + 1)
               else connect Diagonal tn i bn (i + 1)))
          (range_int panels) s)))"

definition bowstring_members :: "int list \<Rightarrow> int list \<Rightarrow> int \<Rightarrow> mstate \<Rightarrow> error + mstate" where
  "bowstring_members bn tn panels s =
     bind_res (for_loop (\<lambda>i. connect TopChord tn i tn (i + 1)) (range_int panels) s) (\<lambda>s.
     bind_res (for_loop (\<lambda>i. connect Vertical bn i tn i) (range_int (panels + 1)) s)
       (for_loop (\<lambda>i. connect Diagonal bn i tn (i + 1)) (range_int panels)))"

definition topology_members ::
  "string \<Rightarrow> int list \<Rightarrow> int list \<Rightarrow> int \<Rightarrow> mstate \<Rightarrow> error + mstate" where
  "topology_members key bn tn panels s =
     (if key = ''warren'' then warren_members bn tn panels s
      else if key \<in> set [''pratt'', ''howe''] then pratt_howe_members key bn tn panels s
      else if key = ''bowstring'' then bowstring_members bn tn panels s
      else Inr s)"

text \<open>The tuple that \<^verbatim>\<open>compute_geometry\<close> returns.\<close>

record geometry =
  g_nodes :: "(int \<times> coord) list"
  g_members :: "(int \<times> (int \<times> int)) list"
  g_bottom :: "int list"
  g_top :: "int list"
  g_bot_ch :: "int list"
  g_top_ch :: "int list"
  g_verts :: "int list"
  g_diags :: "int list"

definition compute_geometry ::
  "mathlib \<Rightarrow> real \<Rightarrow> real \<Rightarrow> int \<Rightarrow> string \<Rightarrow> error + geometry" where
  "compute_geometry lib spn height panels btype =
     (if panels = 0 then Inl ZeroDivisionError
      else
        let panel_w = spn / of_int panels in
        bind_res (btype_key btype) (\<lambda>key.
          let ns = top_nodes lib panel_w height panels key
                     (bottom_nodes panel_w panels
                        \<lparr>nodes = [], nid = 1, bottom = [], top_n = []\<rparr>) in
          bind_res (bottom_chords (bottom ns) panels
                      \<lparr>members = [], mid = 1, bot_ch = [], top_ch = [], verts = [], diags = []\<rparr>)
            (\<lambda>ms.
          bind_res (topology_members key (bottom ns) (top_n ns) panels ms) (\<lambda>ms.
            Inr \<lparr>g_nodes = nodes ns, g_members = members ms,
                 g_bottom = bottom ns, g_top = top_n ns,
                 g_bot_ch = bot_ch ms, g_top_ch = top_ch ms,
                 g_verts = verts ms, g_diags = diags ms\<rparr>))))"

subsection \<open>The exporter\<close>

text \<open>
  The configuration \<^verbatim>\<open>cfg\<close> is a dictionary with thirteen fixed keys, read once each at the
  start of \<^verbatim>\<open>run_in_staad\<close>; it is a record here, so a configuration with a key missing is
  excluded by the type.
\<close>

record config =
  cfg_span :: real
  cfg_height :: real
  cfg_panels :: int
  cfg_bridge_type :: string
  cfg_unit :: string
  cfg_chord_sec :: string
  cfg_diag_sec :: string
  cfg_support_left :: string
  cfg_support_right :: string
  cfg_self_weight :: bool
  cfg_dead_load :: real
  cfg_live_load :: real
  cfg_wind_load :: real

definition UNIT_OPTIONS :: "(string \<times> (int \<times> int)) list" where
  "UNIT_OPTIONS =
     [(''Feet / Kip'', (1, 0)), (''Meter / kN'', (5, 4)), (''Inches / Kip'', (0, 0))]"

text \<open>\<^verbatim>\<open>d[k]\<close> on a dictionary: a missing key raises.\<close>

definition getitem :: "('k \<times> 'v) list \<Rightarrow> 'k \<Rightarrow> error + 'v" where
  "getitem d k = (case map_of d k of None \<Rightarrow> Inl KeyError | Some v \<Rightarrow> Inr v)"

text \<open>
  The external modelling service is not part of the program. A call to it is a value of
  \<open>call\<close>; a value that the service returns and the exporter passes on to a later call is
  named by the exporter's variable that holds it (\<open>Case1\<close> and \<open>Case2\<close> are its
  \<^verbatim>\<open>c1\<close> and \<^verbatim>\<open>c2\<close>).
\<close>

datatype var = Chord_p | Diag_p | Sr | Er | Sid | Sid2 | Case1 | Case2

datatype call =
    Connect
  | SetInputUnits int int
  | SaveModel bool
  | CreateNode int real real real
  | CreateBeam int int int
  | CreateBeamPropertyFromTable var int string int real real
  | CreateAnglePropertyFromTable var int string int real
  | AssignBeamProperty "int list" var
  | AssignMaterialToMember string "int list"
  | CreateMemberPartialReleaseSpec var int "int list" "real list"
  | AssignMemberSpecToBeam "int list" var
  | CreateSupportFixed var
  | CreateSupportPinned var
  | AssignSupportToNode "int list" var
  | CreateNewPrimaryLoadEx2 var string int int
  | SetLoadActive var
  | AddSelfWeightInXYZ int real
  | AddNodalLoad "int list" real real real real real real
  | AddMemberUniformForce "int list" int real real real real
  | CreateNewLoadCombination string int
  | AddLoadAndFactorToCombination int int real
  | PerformAnalysis int

text \<open>The lines passed to \<^verbatim>\<open>log_callback\<close>, and its keyword flags.\<close>

datatype message =
    MsgNoOpenstaadpy
  | MsgConnecting
  | MsgSettingUnits string int int
  | MsgCreatingNodes nat
  | MsgCreatingMembers nat
  | MsgAssigningSections
  | MsgApplyingReleases
  | MsgAssigningSupports
  | MsgCreatingLoadCases
  | MsgSavingModel
  | MsgRunningAnalysis
  | MsgDone string real real int nat nat
  | MsgError error

datatype tag = Plain | ErrorTag | SuccessTag

text \<open>
  The body of the \<^verbatim>\<open>try\<close> block is a sequence of steps: a call to the service, a log line,
  or a Python exception of the exporter's own (an index out of range).
\<close>

datatype step = Call call | Log message tag | Raise error

definition geometry_steps :: "string \<Rightarrow> int \<Rightarrow> int \<Rightarrow> geometry \<Rightarrow> step list" where
  "geometry_steps unit lu fu g =
     [Log MsgConnecting Plain,
      Call Connect,
      Log (MsgSettingUnits unit lu fu) Plain,
      Call (SetInputUnits lu fu),
      Call (SaveModel True),
      Log (MsgCreatingNodes (length (g_nodes g))) Plain]
     @ map (\<lambda>(nid, (x, y, z)). Call (CreateNode nid x y z)) (g_nodes g)
     @ [Log (MsgCreatingMembers (length (g_members g))) Plain]
     @ map (\<lambda>(mid, (n1, n2)). Call (CreateBeam mid n1 n2)) (g_members g)"

definition property_steps :: "string \<Rightarrow> string \<Rightarrow> geometry \<Rightarrow> step list" where
  "property_steps csec dsec g =
     (let cc = 1 in
      [Log MsgAssigningSections Plain,
       Call (CreateBeamPropertyFromTable Chord_p cc csec 0 0 0),
       Call (CreateAnglePropertyFromTable Diag_p cc dsec 0 0),
       Call (AssignBeamProperty (g_bot_ch g) Chord_p)]
      @ (if g_top_ch g \<noteq> [] then [Call (AssignBeamProperty (g_top_ch g) Chord_p)] else [])
      @ (if g_verts g \<noteq> [] then [Call (AssignBeamProperty (g_verts g) Diag_p)] else [])
      @ (if g_diags g \<noteq> [] then [Call (AssignBeamProperty (g_diags g) Diag_p)] else [])
      @ [Call (AssignMaterialToMember ''STEEL'' [1..int (length (g_members g))])])"

definition release_steps :: "geometry \<Rightarrow> step list" where
  "release_steps g =
     (if g_diags g \<noteq> [] then
        [Log MsgApplyingReleases Plain,
         Call (CreateMemberPartialReleaseSpec Sr 0 [0, 1, 1] [0, 0.99, 0.99]),
         Call (CreateMemberPartialReleaseSpec Er 1 [0, 1, 1] [0, 0.99, 0.99]),
         Call (AssignMemberSpecToBeam (g_diags g) Sr),
         Call (AssignMemberSpecToBeam (g_diags g) Er)]
      else [])"

text \<open>
  \<^verbatim>\<open>bottom[0]\<close> and \<^verbatim>\<open>bottom[-1]\<close> raise on an empty list; the steps after a raised
  exception are not run.
\<close>

definition support_steps :: "string \<Rightarrow> string \<Rightarrow> geometry \<Rightarrow> step list" where
  "support_steps supp_l supp_r g =
     Log MsgAssigningSupports Plain #
     (case idx (g_bottom g) 0 of
        Inl e \<Rightarrow> [Raise e]
      | Inr left_node \<Rightarrow>
          (case idx (g_bottom g) (- 1) of
             Inl e \<Rightarrow> [Raise e]
           | Inr right_node \<Rightarrow>
               [Call (if supp_l = ''Fixed'' then CreateSupportFixed Sid
                      else CreateSupportPinned Sid),
                Call (AssignSupportToNode [left_node] Sid),
                Call (if supp_r = ''Pinned'' then CreateSupportPinned Sid2
                      else CreateSupportFixed Sid2),
                Call (AssignSupportToNode [right_node] Sid2)]))"

text \<open>\<^verbatim>\<open>bottom[1:-1]\<close>: a slice never raises.\<close>

definition interior :: "geometry \<Rightarrow> int list" where
  "interior g = butlast (tl (g_bottom g))"

definition load_case1_steps :: "bool \<Rightarrow> real \<Rightarrow> real \<Rightarrow> geometry \<Rightarrow> step list" where
  "load_case1_steps sw dl ll g =
     [Log MsgCreatingLoadCases Plain,
      Call (CreateNewPrimaryLoadEx2 Case1 ''DEAD AND LIVE LOAD'' 0 1),
      Call (SetLoadActive Case1)]
     @ (if sw then [Call (AddSelfWeightInXYZ 2 (- 1))] else [])
     @ (if 0 < ll \<and> interior g \<noteq> []
        then map (\<lambda>n. Call (AddNodalLoad [n] 0 (- ll) 0 0 0 0)) (interior g) else [])
     @ (if 0 < dl then [Call (AddMemberUniformForce (g_bot_ch g) 2 (- dl) 0 0 0)] else [])"

definition wind_members :: "geometry \<Rightarrow> int list" where
  "wind_members g = (if g_verts g \<noteq> [] then g_verts g else g_bot_ch g)"

definition load_case2_steps :: "real \<Rightarrow> geometry \<Rightarrow> step list" where
  "load_case2_steps wl g =
     [Call (CreateNewPrimaryLoadEx2 Case2 ''WIND FROM LEFT'' 3 2),
      Call (SetLoadActive Case2)]
     @ (if 0 < wl then [Call (AddMemberUniformForce (wind_members g) 4 wl 0 0 0)] else [])"

definition combination_steps :: "step list" where
  "combination_steps =
     [Call (CreateNewLoadCombination ''75 PERCENT DL LL WL'' 3),
      Call (AddLoadAndFactorToCombination 3 1 0.75),
      Call (AddLoadAndFactorToCombination 3 2 0.75)]"

definition final_steps :: "config \<Rightarrow> geometry \<Rightarrow> step list" where
  "final_steps cfg g =
     [Log MsgSavingModel Plain,
      Call (SaveModel True),
      Log MsgRunningAnalysis Plain,
      Call (PerformAnalysis 0),
      Log (MsgDone (cfg_bridge_type cfg) (cfg_span cfg) (cfg_height cfg) (cfg_panels cfg)
             (length (g_nodes g)) (length (g_members g))) SuccessTag]"

definition try_steps :: "config \<Rightarrow> int \<Rightarrow> int \<Rightarrow> geometry \<Rightarrow> step list" where
  "try_steps cfg lu fu g =
     geometry_steps (cfg_unit cfg) lu fu g
     @ property_steps (cfg_chord_sec cfg) (cfg_diag_sec cfg) g
     @ release_steps g
     @ support_steps (cfg_support_left cfg) (cfg_support_right cfg) g
     @ load_case1_steps (cfg_self_weight cfg) (cfg_dead_load cfg) (cfg_live_load cfg) g
     @ load_case2_steps (cfg_wind_load cfg) g
     @ combination_steps
     @ final_steps cfg g"

text \<open>
  The surroundings of one export: whether \<^verbatim>\<open>openstaadpy\<close> can be imported, which
  calls the service answers with an exception (it may depend on the calls made before),
  and the \<^verbatim>\<open>math\<close> module that the generator uses.
\<close>

record env =
  openstaadpy_installed :: bool
  service_raises :: "call list \<Rightarrow> call \<Rightarrow> bool"
  libm :: mathlib

text \<open>
  What an export leaves behind: the calls attempted on the service, in order (a call that
  raised is the last one), and the log lines.
\<close>

record trace =
  calls :: "call list"
  logged :: "(message \<times> tag) list"

text \<open>Running the steps of the \<^verbatim>\<open>try\<close> block up to the first exception.\<close>

fun exec :: "(call list \<Rightarrow> call \<Rightarrow> bool) \<Rightarrow> step list \<Rightarrow> trace \<Rightarrow> trace \<times> error option" where
  "exec raises [] t = (t, None)"
| "exec raises (Log m tg # rest) t = exec raises rest (t\<lparr>logged := logged t @ [(m, tg)]\<rparr>)"
| "exec raises (Raise e # rest) t = (t, Some e)"
| "exec raises (Call c # rest) t =
     (if raises (calls t) c then (t\<lparr>calls := calls t @ [c]\<rparr>, Some ServiceError)
      else exec raises rest (t\<lparr>calls := calls t @ [c]\<rparr>))"

text \<open>
  How a call of \<^verbatim>\<open>run_in_staad\<close> ends: it returns \<^verbatim>\<open>True\<close> or \<^verbatim>\<open>False\<close>, or an
  exception leaves it and reaches the caller.
\<close>

datatype outcome = Returns bool | Propagates error

definition run_in_staad :: "env \<Rightarrow> config \<Rightarrow> outcome \<times> trace" where
  "run_in_staad ev cfg =
     (if \<not> openstaadpy_installed ev then
        (Returns False, \<lparr>calls = [], logged = [(MsgNoOpenstaadpy, ErrorTag)]\<rparr>)
      else
        case getitem UNIT_OPTIONS (cfg_unit cfg) of
          Inl e \<Rightarrow> (Propagates e, \<lparr>calls = [], logged = []\<rparr>)
        | Inr (lu, fu) \<Rightarrow>
            (case compute_geometry (libm ev) (cfg_span cfg) (cfg_height cfg) (cfg_panels cfg)
                    (cfg_bridge_type cfg) of
               Inl e \<Rightarrow> (Propagates e, \<lparr>calls = [], logged = []\<rparr>)
             | Inr g \<Rightarrow>
                 (case exec (service_raises ev) (try_steps cfg lu fu g)
                         \<lparr>calls = [], logged = []\<rparr> of
                    (t, None) \<Rightarrow> (Returns True, t)
                  | (t, Some exc) \<Rightarrow>
                      (Returns False, t\<lparr>logged := logged t @ [(MsgError exc, ErrorTag)]\<rparr>))))"

subsection \<open>Sample inputs\<close>

text \<open>
  The initial values of the form (\<^verbatim>\<open>_init_vars\<close>); a \<^verbatim>\<open>math\<close> module with the real
  sine and the real \<open>pi\<close>; and surroundings in which \<^verbatim>\<open>openstaadpy\<close> is installed and
  the service answers every call.
\<close>

definition exact_math :: mathlib where
  "exact_math = \<lparr>math_sin = sin, math_pi = pi\<rparr>"

definition default_config :: config where
  "default_config =
     \<lparr>cfg_span = 120, cfg_height = 20, cfg_panels = 8, cfg_bridge_type = ''Pratt Truss'',
      cfg_unit = ''Feet / Kip'', cfg_chord_sec = ''W21X50'', cfg_diag_sec = ''L40404'',
      cfg_support_left = ''Fixed'', cfg_support_right = ''Pinned'', cfg_self_weight = True,
      cfg_dead_load = 1.2, cfg_live_load = 20, cfg_wind_load = 0.6\<rparr>"

definition reachable_service :: env where
  "reachable_service =
     \<lparr>openstaadpy_installed = True, service_raises = (\<lambda>cs c. False), libm = exact_math\<rparr>"

subsection \<open>Reading the generator's result and the exporter's trace\<close>

text \<open>
  The keys of the two dictionaries, the \<open>y\<close> coordinate \<^verbatim>\<open>nodes[n][1]\<close>, and the four
  values of \<^verbatim>\<open>btype_key\<close> that the generator has a branch for.
\<close>

definition node_ids :: "geometry \<Rightarrow> int list" where
  "node_ids g = map fst (g_nodes g)"

definition member_ids :: "geometry \<Rightarrow> int list" where
  "member_ids g = map fst (g_members g)"

definition node_y :: "geometry \<Rightarrow> int \<Rightarrow> real option" where
  "node_y g n = map_option (\<lambda>(x, y, z). y) (map_of (g_nodes g) n)"

definition topologies :: "string list" where
  "topologies = [''pratt'', ''warren'', ''howe'', ''bowstring'']"

text \<open>The bridge types that the form offers (\<^verbatim>\<open>BRIDGE_TYPES\<close>).\<close>

definition BRIDGE_TYPES :: "string list" where
  "BRIDGE_TYPES = [''Pratt Truss'', ''Warren Truss'', ''Howe Truss'', ''Bowstring Arch'']"

text \<open>
  The calls of a step sequence in order, and the kinds of call that the claims about loads
  speak of: a call of the load interface, a nodal load, a uniform member load in a given
  direction.
\<close>

fun step_calls :: "step list \<Rightarrow> call list" where
  "step_calls [] = []"
| "step_calls (Call c # rest) = c # step_calls rest"
| "step_calls (Log m tg # rest) = step_calls rest"
| "step_calls (Raise e # rest) = step_calls rest"

fun is_load_call :: "call \<Rightarrow> bool" where
  "is_load_call (CreateNewPrimaryLoadEx2 v name a b) = True"
| "is_load_call (SetLoadActive v) = True"
| "is_load_call (AddSelfWeightInXYZ d f) = True"
| "is_load_call (AddNodalLoad ns fx fy fz mx my mz) = True"
| "is_load_call (AddMemberUniformForce ms d w a b c) = True"
| "is_load_call (CreateNewLoadCombination name n) = True"
| "is_load_call (AddLoadAndFactorToCombination n k f) = True"
| "is_load_call c = False"

fun is_nodal_load :: "call \<Rightarrow> bool" where
  "is_nodal_load (AddNodalLoad ns fx fy fz mx my mz) = True"
| "is_nodal_load c = False"

fun is_uniform_force :: "int \<Rightarrow> call \<Rightarrow> bool" where
  "is_uniform_force dir (AddMemberUniformForce ms d w a b c) = (d = dir)"
| "is_uniform_force dir c = False"

subsection \<open>Closed forms of the generator's loops\<close>

text \<open>
  The definitions below are not part of the program. They describe what each loop of
  \<^verbatim>\<open>compute_geometry\<close> leaves behind, and the lemmas that follow prove that the loops
  compute exactly that.
\<close>

text \<open>\<open>n\<close> consecutive ids from \<open>m\<close> on.\<close>

definition ids :: "int \<Rightarrow> nat \<Rightarrow> int list" where
  "ids m n = [m..m + int n - 1]"

text \<open>
  The loop invariants: every key already in the dictionary is below the counter, so the
  next assignment appends.
\<close>

definition fresh_n :: "nstate \<Rightarrow> bool" where
  "fresh_n s \<longleftrightarrow> (\<forall>k\<in>fst ` set (nodes s). k < nid s)"

definition fresh_m :: "mstate \<Rightarrow> bool" where
  "fresh_m s \<longleftrightarrow> (\<forall>k\<in>fst ` set (members s). k < mid s)"

definition role_list :: "role \<Rightarrow> mstate \<Rightarrow> int list" where
  "role_list r s = (case r of BottomChord \<Rightarrow> bot_ch s | TopChord \<Rightarrow> top_ch s
                     | Vertical \<Rightarrow> verts s | Diagonal \<Rightarrow> diags s)"

text \<open>The coordinates stored by the node loops, in loop order.\<close>

definition bottom_coords :: "real \<Rightarrow> int \<Rightarrow> coord list" where
  "bottom_coords panel_w panels =
     map (\<lambda>i. (round4 (of_int i * panel_w), 0, 0)) (range_int (panels + 1))"

definition top_coords :: "mathlib \<Rightarrow> real \<Rightarrow> real \<Rightarrow> int \<Rightarrow> string \<Rightarrow> coord list" where
  "top_coords lib panel_w height panels key =
     (if key = ''warren'' then
        map (\<lambda>i. (round4 ((of_int i + 0.5) * panel_w), height, 0)) (range_int panels)
      else if key = ''bowstring'' then
        map (\<lambda>i. (round4 (of_int i * panel_w),
                   round4 (height * math_sin lib ((of_int i / of_int panels) * math_pi lib)),
                   0))
            (range_int (panels + 1))
      else
        map (\<lambda>i. (round4 (of_int i * panel_w), height, 0)) (range_int (panels + 1)))"

text \<open>
  The id of the first top node, and the node pairs stored by each member loop, in loop
  order.
\<close>

definition top_start :: "int \<Rightarrow> int" where
  "top_start panels = 1 + int (nat (panels + 1))"

definition bottom_chord_edges :: "int \<Rightarrow> (int \<times> int) list" where
  "bottom_chord_edges panels = map (\<lambda>i. (1 + i, 1 + (i + 1))) (range_int panels)"

definition top_chord_edges :: "string \<Rightarrow> int \<Rightarrow> (int \<times> int) list" where
  "top_chord_edges key panels =
     (let t = top_start panels in
      if key = ''warren'' then map (\<lambda>i. (t + i, t + (i + 1))) (range_int (panels - 1))
      else if key \<in> set [''pratt'', ''howe'', ''bowstring'']
      then map (\<lambda>i. (t + i, t + (i + 1))) (range_int panels)
      else [])"

definition vertical_edges :: "string \<Rightarrow> int \<Rightarrow> (int \<times> int) list" where
  "vertical_edges key panels =
     (let t = top_start panels in
      if key \<in> set [''pratt'', ''howe'', ''bowstring'']
      then map (\<lambda>i. (1 + i, t + i)) (range_int (panels + 1))
      else [])"

definition diagonal_edges :: "string \<Rightarrow> int \<Rightarrow> (int \<times> int) list" where
  "diagonal_edges key panels =
     (let t = top_start panels; half = panels div 2 in
      if key = ''warren''
      then concat (map (\<lambda>i. [(1 + i, t + i), (t + i, 1 + (i + 1))]) (range_int panels))
      else if key = ''pratt''
      then map (\<lambda>i. if i < half then (t + i, 1 + (i + 1)) else (1 + i, t + (i + 1)))
             (range_int panels)
      else if key = ''howe''
      then map (\<lambda>i. if i < half then (1 + i, t + (i + 1)) else (t + i, 1 + (i + 1)))
             (range_int panels)
      else if key = ''bowstring''
      then map (\<lambda>i. (1 + i, t + (i + 1))) (range_int panels)
      else [])"

text \<open>The member dictionary and role lists after all member loops.\<close>

definition member_phase :: "string \<Rightarrow> int \<Rightarrow> mstate" where
  "member_phase key p =
     fold (add_member Diagonal) (diagonal_edges key p)
       (fold (add_member Vertical) (vertical_edges key p)
         (fold (add_member TopChord) (top_chord_edges key p)
           (fold (add_member BottomChord) (bottom_chord_edges p)
              \<lparr>members = [], mid = 1, bot_ch = [], top_ch = [], verts = [], diags = []\<rparr>)))"

definition all_edges :: "string \<Rightarrow> int \<Rightarrow> (int \<times> int) list" where
  "all_edges key p =
     bottom_chord_edges p @ top_chord_edges key p @ vertical_edges key p @ diagonal_edges key p"

definition node_coords :: "mathlib \<Rightarrow> real \<Rightarrow> real \<Rightarrow> int \<Rightarrow> string \<Rightarrow> coord list" where
  "node_coords lib panel_w height panels key =
     bottom_coords panel_w panels @ top_coords lib panel_w height panels key"

text \<open>The calls of the export that come before the load cases.\<close>

definition pre_load_calls :: "config \<Rightarrow> int \<Rightarrow> int \<Rightarrow> geometry \<Rightarrow> call list" where
  "pre_load_calls cfg lu fu g =
     step_calls (geometry_steps (cfg_unit cfg) lu fu g
       @ property_steps (cfg_chord_sec cfg) (cfg_diag_sec cfg) g
       @ release_steps g
       @ support_steps (cfg_support_left cfg) (cfg_support_right cfg) g)"

section \<open>The loops of the generator\<close>

lemma length_range_int: "length (range_int n) = nat n"
  by (simp add: range_int_def)

lemma set_range_int: "set (range_int n) = {0..n - 1}"
  by (simp add: range_int_def)

lemma nth_range_int: "k < nat n \<Longrightarrow> range_int n ! k = int k"
  by (simp add: range_int_def)

lemma update_fresh: "k \<notin> fst ` set al \<Longrightarrow> AList.update k v al = al @ [(k, v)]"
  by (induction al) auto

lemma ids_0: "ids m 0 = []" by (simp add: ids_def)

lemma ids_Suc: "ids m (Suc n) = m # ids (m + 1) n"
  by (simp add: ids_def upto_rec1 add.commute add.left_commute)

lemma length_ids: "length (ids m n) = n" by (simp add: ids_def)

lemma fold_put_bottom:
  "fresh_n s \<Longrightarrow>
   fold (\<lambda>i. put_bottom (f i)) xs s =
     s\<lparr>nodes := nodes s @ zip (ids (nid s) (length xs)) (map f xs),
       bottom := bottom s @ ids (nid s) (length xs),
       nid := nid s + int (length xs)\<rparr>"
proof (induction xs arbitrary: s)
  case Nil
  then show ?case by (simp add: ids_0)
next
  case (Cons x xs)
  have fr: "nid s \<notin> fst ` set (nodes s)" using Cons.prems by (auto simp: fresh_n_def)
  have st: "put_bottom (f x) s = s\<lparr>nodes := nodes s @ [(nid s, f x)], bottom := bottom s @ [nid s], nid := nid s + 1\<rparr>"
    by (simp add: put_bottom_def update_fresh[OF fr])
  have fr': "fresh_n (put_bottom (f x) s)"
    using Cons.prems by (auto simp: st fresh_n_def)
  show ?case
    by (simp add: Cons.IH[OF fr'] ids_Suc) (simp add: st)
qed

lemma fold_put_top:
  "fresh_n s \<Longrightarrow>
   fold (\<lambda>i. put_top (f i)) xs s =
     s\<lparr>nodes := nodes s @ zip (ids (nid s) (length xs)) (map f xs),
       top_n := top_n s @ ids (nid s) (length xs),
       nid := nid s + int (length xs)\<rparr>"
proof (induction xs arbitrary: s)
  case Nil
  then show ?case by (simp add: ids_0)
next
  case (Cons x xs)
  have fr: "nid s \<notin> fst ` set (nodes s)" using Cons.prems by (auto simp: fresh_n_def)
  have st: "put_top (f x) s = s\<lparr>nodes := nodes s @ [(nid s, f x)], top_n := top_n s @ [nid s], nid := nid s + 1\<rparr>"
    by (simp add: put_top_def update_fresh[OF fr])
  have fr': "fresh_n (put_top (f x) s)"
    using Cons.prems by (auto simp: st fresh_n_def)
  show ?case
    by (simp add: Cons.IH[OF fr'] ids_Suc) (simp add: st)
qed

lemma add_member_fresh:
  assumes "fresh_m s"
  shows "members (add_member r e s) = members s @ [(mid s, e)]"
    and "mid (add_member r e s) = mid s + 1"
    and "role_list r' (add_member r e s) = role_list r' s @ (if r' = r then [mid s] else [])"
    and "fresh_m (add_member r e s)"
proof -
  have fr: "mid s \<notin> fst ` set (members s)" using assms by (auto simp: fresh_m_def)
  show "members (add_member r e s) = members s @ [(mid s, e)]"
    by (cases r) (simp_all add: add_member_def update_fresh[OF fr])
  show "mid (add_member r e s) = mid s + 1"
    by (cases r) (simp_all add: add_member_def)
  show "role_list r' (add_member r e s) = role_list r' s @ (if r' = r then [mid s] else [])"
    by (cases r; cases r') (simp_all add: add_member_def role_list_def)
  show "fresh_m (add_member r e s)"
    using assms by (cases r) (auto simp: add_member_def update_fresh[OF fr] fresh_m_def)
qed

lemma fold_add_member:
  "fresh_m s \<Longrightarrow>
     members (fold (add_member r) es s) = members s @ zip (ids (mid s) (length es)) es \<and>
     mid (fold (add_member r) es s) = mid s + int (length es) \<and>
     (\<forall>r'. role_list r' (fold (add_member r) es s) =
              role_list r' s @ (if r' = r then ids (mid s) (length es) else [])) \<and>
     fresh_m (fold (add_member r) es s)"
proof (induction es arbitrary: s)
  case Nil
  then show ?case by (simp add: ids_0)
next
  case (Cons e es)
  note a = add_member_fresh[OF Cons.prems]
  show ?case
    using Cons.IH[OF a(4), of ] by (simp add: a ids_Suc)
qed

lemma for_loop_edges:
  "\<forall>i\<in>set xs. \<forall>s. body i s = Inr (fold (add_member r) (es i) s) \<Longrightarrow>
   for_loop body xs s = Inr (fold (add_member r) (concat (map es xs)) s)"
  by (induction xs arbitrary: s) simp_all

lemma idx_ids: "0 \<le> i \<Longrightarrow> i < int n \<Longrightarrow> idx (ids m n) i = Inr (m + i)"
  by (simp add: idx_def length_ids) (simp add: ids_def)

lemma connect_ids:
  "0 \<le> i \<Longrightarrow> i < int n \<Longrightarrow> 0 \<le> j \<Longrightarrow> j < int k \<Longrightarrow>
   connect r (ids a n) i (ids b k) j s = Inr (fold (add_member r) [(a + i, b + j)] s)"
  by (simp add: connect_def idx_ids bind_res_def)

lemma bottom_nodes_closed:
  "fresh_n s \<Longrightarrow>
   bottom_nodes pw p s =
     s\<lparr>nodes := nodes s @ zip (ids (nid s) (nat (p + 1))) (bottom_coords pw p),
       bottom := bottom s @ ids (nid s) (nat (p + 1)),
       nid := nid s + int (nat (p + 1))\<rparr>"
  by (simp add: bottom_nodes_def fold_put_bottom bottom_coords_def length_range_int)

lemma top_nodes_closed:
  "fresh_n s \<Longrightarrow>
   top_nodes lib pw h p key s =
     s\<lparr>nodes := nodes s @ zip (ids (nid s) (length (top_coords lib pw h p key))) (top_coords lib pw h p key),
       top_n := top_n s @ ids (nid s) (length (top_coords lib pw h p key)),
       nid := nid s + int (length (top_coords lib pw h p key))\<rparr>"
  by (simp add: top_nodes_def fold_put_top top_coords_def length_range_int)

lemma length_top_coords:
  "length (top_coords lib pw h p key) = (if key = ''warren'' then nat p else nat (p + 1))"
  by (simp add: top_coords_def length_range_int)

lemma node_phase:
  "top_nodes lib pw h p key (bottom_nodes pw p \<lparr>nodes = [], nid = 1, bottom = [], top_n = []\<rparr>) =
     \<lparr>nodes = zip (ids 1 (nat (p + 1))) (bottom_coords pw p)
              @ zip (ids (top_start p) (length (top_coords lib pw h p key))) (top_coords lib pw h p key),
      nid = top_start p + int (length (top_coords lib pw h p key)),
      bottom = ids 1 (nat (p + 1)),
      top_n = ids (top_start p) (length (top_coords lib pw h p key))\<rparr>"
proof -
  have f0: "fresh_n \<lparr>nodes = [], nid = 1, bottom = [], top_n = []\<rparr>"
    by (simp add: fresh_n_def)
  have b: "bottom_nodes pw p \<lparr>nodes = [], nid = 1, bottom = [], top_n = []\<rparr> =
      \<lparr>nodes = zip (ids 1 (nat (p + 1))) (bottom_coords pw p), nid = top_start p,
       bottom = ids 1 (nat (p + 1)), top_n = []\<rparr>"
    by (simp add: bottom_nodes_closed[OF f0] top_start_def)
  have f1: "fresh_n \<lparr>nodes = zip (ids 1 (nat (p + 1))) (bottom_coords pw p), nid = top_start p,
       bottom = ids 1 (nat (p + 1)), top_n = []\<rparr>"
    by (auto simp: fresh_n_def top_start_def ids_def dest!: set_zip_leftD)
  show ?thesis
    by (simp add: b top_nodes_closed[OF f1])
qed

lemma bind_res_Inr: "bind_res (Inr x) f = f x"
  by (simp add: bind_res_def)

lemma bind_res_Inl: "bind_res (Inl e) f = Inl e"
  by (simp add: bind_res_def)

lemma concat_map_single: "concat (map (\<lambda>i. [f i]) xs) = map f xs"
  by (induction xs) simp_all

lemma for_loop_connect:
  assumes "\<forall>i\<in>set xs. 0 \<le> fa i \<and> fa i < int n \<and> 0 \<le> fb i \<and> fb i < int k"
  shows "for_loop (\<lambda>i. connect r (ids a n) (fa i) (ids b k) (fb i)) xs s =
         Inr (fold (add_member r) (map (\<lambda>i. (a + fa i, b + fb i)) xs) s)"
proof -
  have "for_loop (\<lambda>i. connect r (ids a n) (fa i) (ids b k) (fb i)) xs s =
        Inr (fold (add_member r) (concat (map (\<lambda>i. [(a + fa i, b + fb i)]) xs)) s)"
    by (rule for_loop_edges) (use assms in \<open>simp add: connect_ids\<close>)
  then show ?thesis by (simp only: concat_map_single)
qed

lemma bottom_chords_closed:
  "bottom_chords (ids 1 (nat (p + 1))) p s =
     Inr (fold (add_member BottomChord) (bottom_chord_edges p) s)"
  unfolding bottom_chords_def bottom_chord_edges_def
  by (rule for_loop_connect) (auto simp: set_range_int)

lemma warren_members_closed:
  "warren_members (ids 1 (nat (p + 1))) (ids (top_start p) (nat p)) p s =
     Inr (fold (add_member Diagonal) (diagonal_edges ''warren'' p)
           (fold (add_member TopChord) (top_chord_edges ''warren'' p) s))"
proof -
  let ?bn = "ids 1 (nat (p + 1))" and ?tn = "ids (top_start p) (nat p)"
  have t: "for_loop (\<lambda>i. connect TopChord ?tn i ?tn (i + 1)) (range_int (p - 1)) s =
           Inr (fold (add_member TopChord) (top_chord_edges ''warren'' p) s)"
    unfolding top_chord_edges_def Let_def
    by (simp, rule for_loop_connect) (auto simp: set_range_int)
  have d: "for_loop (\<lambda>i s. bind_res (connect Diagonal ?bn i ?tn i s)
                              (connect Diagonal ?tn i ?bn (i + 1))) (range_int p) s' =
           Inr (fold (add_member Diagonal) (diagonal_edges ''warren'' p) s')" for s'
    unfolding diagonal_edges_def Let_def
    by (simp, rule for_loop_edges) (auto simp: set_range_int connect_ids bind_res_Inr)
  show ?thesis
    by (simp add: warren_members_def t d bind_res_Inr)
qed

lemma flat_top_verts:
  "bind_res (for_loop (\<lambda>i. connect TopChord (ids (top_start p) (nat (p + 1))) i
                              (ids (top_start p) (nat (p + 1))) (i + 1)) (range_int p) s)
     (\<lambda>s. bind_res (for_loop (\<lambda>i. connect Vertical (ids 1 (nat (p + 1))) i
                                     (ids (top_start p) (nat (p + 1))) i) (range_int (p + 1)) s) f) =
   f (fold (add_member Vertical) (map (\<lambda>i. (1 + i, top_start p + i)) (range_int (p + 1)))
       (fold (add_member TopChord) (map (\<lambda>i. (top_start p + i, top_start p + (i + 1))) (range_int p)) s))"
proof -
  let ?bn = "ids 1 (nat (p + 1))" and ?tn = "ids (top_start p) (nat (p + 1))"
  have t: "for_loop (\<lambda>i. connect TopChord ?tn i ?tn (i + 1)) (range_int p) s =
           Inr (fold (add_member TopChord) (map (\<lambda>i. (top_start p + i, top_start p + (i + 1))) (range_int p)) s)"
    by (rule for_loop_connect) (auto simp: set_range_int)
  have v: "for_loop (\<lambda>i. connect Vertical ?bn i ?tn i) (range_int (p + 1)) s' =
           Inr (fold (add_member Vertical) (map (\<lambda>i. (1 + i, top_start p + i)) (range_int (p + 1))) s')" for s'
    by (rule for_loop_connect) (auto simp: set_range_int)
  show ?thesis by (simp add: t v bind_res_Inr)
qed

lemma pratt_howe_members_closed:
  assumes "key \<in> {''pratt'', ''howe''}"
  shows "pratt_howe_members key (ids 1 (nat (p + 1))) (ids (top_start p) (nat (p + 1))) p s =
     Inr (fold (add_member Diagonal) (diagonal_edges key p)
           (fold (add_member Vertical) (vertical_edges key p)
             (fold (add_member TopChord) (top_chord_edges key p) s)))"
proof -
  let ?bn = "ids 1 (nat (p + 1))" and ?tn = "ids (top_start p) (nat (p + 1))"
  let ?t = "top_start p"
  have d: "for_loop (\<lambda>i.
            if key = ''pratt'' then
              (if i < p div 2 then connect Diagonal ?tn i ?bn (i + 1)
               else connect Diagonal ?bn i ?tn (i + 1))
            else
              (if i < p div 2 then connect Diagonal ?bn i ?tn (i + 1)
               else connect Diagonal ?tn i ?bn (i + 1))) (range_int p) s' =
           Inr (fold (add_member Diagonal) (diagonal_edges key p) s')" for s'
  proof -
    let ?e = "\<lambda>i. if key = ''pratt''
                   then (if i < p div 2 then (?t + i, 1 + (i + 1)) else (1 + i, ?t + (i + 1)))
                   else (if i < p div 2 then (1 + i, ?t + (i + 1)) else (?t + i, 1 + (i + 1)))"
    have "for_loop (\<lambda>i.
            if key = ''pratt'' then
              (if i < p div 2 then connect Diagonal ?tn i ?bn (i + 1)
               else connect Diagonal ?bn i ?tn (i + 1))
            else
              (if i < p div 2 then connect Diagonal ?bn i ?tn (i + 1)
               else connect Diagonal ?tn i ?bn (i + 1))) (range_int p) s' =
          Inr (fold (add_member Diagonal) (concat (map (\<lambda>i. [?e i]) (range_int p))) s')"
      by (rule for_loop_edges) (auto simp: set_range_int connect_ids)
    moreover have "map ?e (range_int p) = diagonal_edges key p"
      using assms by (auto simp: diagonal_edges_def Let_def)
    ultimately show ?thesis by (simp only: concat_map_single)
  qed
  have e1: "top_chord_edges key p = map (\<lambda>i. (?t + i, ?t + (i + 1))) (range_int p)"
    using assms by (auto simp: top_chord_edges_def Let_def)
  have e2: "vertical_edges key p = map (\<lambda>i. (1 + i, ?t + i)) (range_int (p + 1))"
    using assms by (auto simp: vertical_edges_def Let_def)
  show ?thesis
    unfolding pratt_howe_members_def flat_top_verts Let_def e1 e2 by (rule d)
qed

lemma bowstring_members_closed:
  "bowstring_members (ids 1 (nat (p + 1))) (ids (top_start p) (nat (p + 1))) p s =
     Inr (fold (add_member Diagonal) (diagonal_edges ''bowstring'' p)
           (fold (add_member Vertical) (vertical_edges ''bowstring'' p)
             (fold (add_member TopChord) (top_chord_edges ''bowstring'' p) s)))"
proof -
  let ?bn = "ids 1 (nat (p + 1))" and ?tn = "ids (top_start p) (nat (p + 1))"
  have d: "for_loop (\<lambda>i. connect Diagonal ?bn i ?tn (i + 1)) (range_int p) s' =
           Inr (fold (add_member Diagonal) (diagonal_edges ''bowstring'' p) s')" for s'
    unfolding diagonal_edges_def Let_def
    by (simp, rule for_loop_connect) (auto simp: set_range_int)
  show ?thesis
    unfolding bowstring_members_def flat_top_verts
    by (simp add: d top_chord_edges_def vertical_edges_def Let_def)
qed

lemma topology_members_closed:
  "topology_members key (ids 1 (nat (p + 1))) (ids (top_start p) (length (top_coords lib pw h p key))) p s =
     Inr (fold (add_member Diagonal) (diagonal_edges key p)
           (fold (add_member Vertical) (vertical_edges key p)
             (fold (add_member TopChord) (top_chord_edges key p) s)))"
proof -
  consider "key = ''warren''" | "key \<in> {''pratt'', ''howe''}" | "key = ''bowstring''"
    | "key \<notin> {''warren'', ''pratt'', ''howe'', ''bowstring''}" by blast
  then show ?thesis
  proof cases
    case 1
    then show ?thesis
      by (simp add: topology_members_def length_top_coords warren_members_closed vertical_edges_def)
  next
    case 2
    then show ?thesis
      by (auto simp add: topology_members_def length_top_coords pratt_howe_members_closed)
  next
    case 3
    then show ?thesis
      by (simp add: topology_members_def length_top_coords bowstring_members_closed)
  next
    case 4
    then show ?thesis
      by (simp add: topology_members_def diagonal_edges_def vertical_edges_def top_chord_edges_def)
  qed
qed

lemma compute_geometry_phases:
  assumes "p \<noteq> 0" and "btype_key btype = Inr key"
  shows "compute_geometry lib spn h p btype =
     Inr \<lparr>g_nodes = zip (ids 1 (nat (p + 1))) (bottom_coords (spn / of_int p) p)
                   @ zip (ids (top_start p) (length (top_coords lib (spn / of_int p) h p key)))
                       (top_coords lib (spn / of_int p) h p key),
          g_members = members (member_phase key p),
          g_bottom = ids 1 (nat (p + 1)),
          g_top = ids (top_start p) (length (top_coords lib (spn / of_int p) h p key)),
          g_bot_ch = bot_ch (member_phase key p), g_top_ch = top_ch (member_phase key p),
          g_verts = verts (member_phase key p), g_diags = diags (member_phase key p)\<rparr>"
  using assms
  by (simp add: compute_geometry_def bind_res_Inr node_phase Let_def bottom_chords_closed
      topology_members_closed member_phase_def)

lemma member_phase_closed:
  fixes key p
  defines "bc \<equiv> bottom_chord_edges p" and "tc \<equiv> top_chord_edges key p"
    and "vs \<equiv> vertical_edges key p" and "ds \<equiv> diagonal_edges key p"
  shows "members (member_phase key p) =
           zip (ids 1 (length bc)) bc
           @ zip (ids (1 + int (length bc)) (length tc)) tc
           @ zip (ids (1 + int (length bc) + int (length tc)) (length vs)) vs
           @ zip (ids (1 + int (length bc) + int (length tc) + int (length vs)) (length ds)) ds"
    and "bot_ch (member_phase key p) = ids 1 (length bc)"
    and "top_ch (member_phase key p) = ids (1 + int (length bc)) (length tc)"
    and "verts (member_phase key p) = ids (1 + int (length bc) + int (length tc)) (length vs)"
    and "diags (member_phase key p) =
           ids (1 + int (length bc) + int (length tc) + int (length vs)) (length ds)"
proof -
  let ?s0 = "\<lparr>members = [], mid = 1, bot_ch = [], top_ch = [], verts = [], diags = []\<rparr>"
  let ?s1 = "fold (add_member BottomChord) bc ?s0"
  let ?s2 = "fold (add_member TopChord) tc ?s1"
  let ?s3 = "fold (add_member Vertical) vs ?s2"
  let ?s4 = "fold (add_member Diagonal) ds ?s3"
  have f0: "fresh_m ?s0" by (simp add: fresh_m_def)
  note l1 = fold_add_member[OF f0, of BottomChord bc]
  from l1 have f1: "fresh_m ?s1" by blast
  note l2 = fold_add_member[OF f1, of TopChord tc]
  from l2 have f2: "fresh_m ?s2" by blast
  note l3 = fold_add_member[OF f2, of Vertical vs]
  from l3 have f3: "fresh_m ?s3" by blast
  note l4 = fold_add_member[OF f3, of Diagonal ds]
  have m: "member_phase key p = ?s4"
    by (simp add: member_phase_def bc_def tc_def vs_def ds_def)
  have mids: "mid ?s1 = 1 + int (length bc)"
    "mid ?s2 = 1 + int (length bc) + int (length tc)"
    "mid ?s3 = 1 + int (length bc) + int (length tc) + int (length vs)"
    using l1 l2 l3 by simp_all
  have rl: "role_list r ?s4 =
      (if r = BottomChord then ids 1 (length bc) else [])
      @ (if r = TopChord then ids (1 + int (length bc)) (length tc) else [])
      @ (if r = Vertical then ids (1 + int (length bc) + int (length tc)) (length vs) else [])
      @ (if r = Diagonal then ids (1 + int (length bc) + int (length tc) + int (length vs)) (length ds) else [])" for r
  proof -
    have "role_list r ?s0 = []" by (cases r) (simp_all add: role_list_def)
    then show ?thesis
      using l1 l2 l3 l4 by (simp add: mids)
  qed
  show "members (member_phase key p) =
           zip (ids 1 (length bc)) bc
           @ zip (ids (1 + int (length bc)) (length tc)) tc
           @ zip (ids (1 + int (length bc) + int (length tc)) (length vs)) vs
           @ zip (ids (1 + int (length bc) + int (length tc) + int (length vs)) (length ds)) ds"
    unfolding m using l1 l2 l3 l4 by (simp add: mids)
  show "bot_ch (member_phase key p) = ids 1 (length bc)"
    using rl[of BottomChord] by (simp add: m role_list_def)
  show "top_ch (member_phase key p) = ids (1 + int (length bc)) (length tc)"
    using rl[of TopChord] by (simp add: m role_list_def)
  show "verts (member_phase key p) = ids (1 + int (length bc) + int (length tc)) (length vs)"
    using rl[of Vertical] by (simp add: m role_list_def)
  show "diags (member_phase key p) =
           ids (1 + int (length bc) + int (length tc) + int (length vs)) (length ds)"
    using rl[of Diagonal] by (simp add: m role_list_def)
qed

lemma ids_append: "ids a m @ ids (a + int m) n = ids a (m + n)"
proof (induction m arbitrary: a)
  case 0
  then show ?case by (simp add: ids_0)
next
  case (Suc m)
  have "ids (a + 1) m @ ids (a + 1 + int m) n = ids (a + 1) (m + n)" by (rule Suc.IH)
  then show ?case by (simp add: ids_Suc add.commute add.left_commute)
qed

lemma set_ids: "set (ids a n) = {a..a + int n - 1}"
  by (simp add: ids_def)

lemma distinct_ids: "distinct (ids a n)"
  by (simp add: ids_def)

lemma nth_ids: "i < n \<Longrightarrow> ids a n ! i = a + int i"
  by (simp add: ids_def)

lemma zip_ids_append:
  "length xs = m \<Longrightarrow>
   zip (ids a m) xs @ zip (ids (a + int m) n) ys = zip (ids a (m + n)) (xs @ ys)"
  by (simp add: ids_append[symmetric] length_ids)

lemma map_of_zip_ids:
  "i < length es \<Longrightarrow> map_of (zip (ids a (length es)) es) (a + int i) = Some (es ! i)"
  using map_of_zip_nth[of "ids a (length es)" es i]
  by (simp add: length_ids distinct_ids nth_ids)

lemma members_member_phase:
  "members (member_phase key p) = zip (ids 1 (length (all_edges key p))) (all_edges key p)"
proof -
  let ?bc = "bottom_chord_edges p" and ?tc = "top_chord_edges key p"
  let ?vs = "vertical_edges key p" and ?ds = "diagonal_edges key p"
  have 1: "zip (ids (1 + int (length ?bc) + int (length ?tc)) (length ?vs)) ?vs
           @ zip (ids (1 + int (length ?bc) + int (length ?tc) + int (length ?vs)) (length ?ds)) ?ds
         = zip (ids (1 + int (length ?bc) + int (length ?tc)) (length ?vs + length ?ds)) (?vs @ ?ds)"
    by (rule zip_ids_append) simp
  have 2: "zip (ids (1 + int (length ?bc)) (length ?tc)) ?tc
           @ zip (ids (1 + int (length ?bc) + int (length ?tc)) (length ?vs + length ?ds)) (?vs @ ?ds)
         = zip (ids (1 + int (length ?bc)) (length ?tc + (length ?vs + length ?ds))) (?tc @ ?vs @ ?ds)"
    by (rule zip_ids_append) simp
  have 3: "zip (ids 1 (length ?bc)) ?bc
           @ zip (ids (1 + int (length ?bc)) (length ?tc + (length ?vs + length ?ds))) (?tc @ ?vs @ ?ds)
         = zip (ids 1 (length ?bc + (length ?tc + (length ?vs + length ?ds)))) (?bc @ ?tc @ ?vs @ ?ds)"
    by (rule zip_ids_append) simp
  show ?thesis
    by (simp only: member_phase_closed(1) 1 2 3) (simp add: all_edges_def)
qed

lemma role_lists_member_phase:
  "bot_ch (member_phase key p) @ top_ch (member_phase key p)
     @ verts (member_phase key p) @ diags (member_phase key p) =
   ids 1 (length (all_edges key p))"
proof -
  let ?bc = "bottom_chord_edges p" and ?tc = "top_chord_edges key p"
  let ?vs = "vertical_edges key p" and ?ds = "diagonal_edges key p"
  have "ids 1 (length ?bc) @ ids (1 + int (length ?bc)) (length ?tc)
        @ ids (1 + int (length ?bc) + int (length ?tc)) (length ?vs)
        @ ids (1 + int (length ?bc) + int (length ?tc) + int (length ?vs)) (length ?ds)
      = ids 1 (length ?bc + (length ?tc + (length ?vs + length ?ds)))"
    by (simp only: ids_append)
  then show ?thesis
    by (simp add: member_phase_closed all_edges_def)
qed

lemma length_bottom_chord_edges: "length (bottom_chord_edges p) = nat p"
  by (simp add: bottom_chord_edges_def length_range_int)

lemma length_top_chord_edges:
  "length (top_chord_edges key p) =
     (if key = ''warren'' then nat (p - 1)
      else if key \<in> {''pratt'', ''howe'', ''bowstring''} then nat p else 0)"
  by (simp add: top_chord_edges_def length_range_int Let_def)

lemma length_vertical_edges:
  "length (vertical_edges key p) =
     (if key \<in> {''pratt'', ''howe'', ''bowstring''} then nat (p + 1) else 0)"
  by (simp add: vertical_edges_def length_range_int Let_def)

lemma length_concat_pairs: "length (concat (map (\<lambda>i. [f i, g i]) xs)) = 2 * length xs"
  by (induction xs) simp_all

lemma length_diagonal_edges:
  "length (diagonal_edges key p) =
     (if key = ''warren'' then 2 * nat p
      else if key \<in> {''pratt'', ''howe'', ''bowstring''} then nat p else 0)"
  by (simp add: diagonal_edges_def length_range_int Let_def length_concat_pairs)

lemma top_start_pos: "0 \<le> p \<Longrightarrow> top_start p = p + 2"
  by (simp add: top_start_def)

lemma edges_valid:
  assumes "1 \<le> p" and "key \<in> {''pratt'', ''warren'', ''howe'', ''bowstring''}"
    and "(a, b) \<in> set (all_edges key p)"
  shows "1 \<le> a \<and> a \<le> top_start p + int (length (top_coords lib pw h p key)) - 1 \<and>
         1 \<le> b \<and> b \<le> top_start p + int (length (top_coords lib pw h p key)) - 1 \<and> a \<noteq> b"
proof -
  have t: "top_start p = p + 2" using assms(1) by (simp add: top_start_pos)
  show ?thesis
    using assms
    by (auto simp: all_edges_def bottom_chord_edges_def top_chord_edges_def vertical_edges_def
        diagonal_edges_def set_range_int length_top_coords t Let_def split: if_splits)
qed

section \<open>The generator's output\<close>

lemma compute_geometry_ids:
  assumes "p \<noteq> 0" and "btype_key btype = Inr key"
    and "compute_geometry lib spn h p btype = Inr g"
  shows "node_ids g = ids 1 (nat (p + 1) + length (top_coords lib (spn / of_int p) h p key))"
    and "length (g_nodes g) = nat (p + 1) + length (top_coords lib (spn / of_int p) h p key)"
    and "g_members g = zip (ids 1 (length (all_edges key p))) (all_edges key p)"
    and "g_bot_ch g @ g_top_ch g @ g_verts g @ g_diags g = ids 1 (length (all_edges key p))"
proof -
  note g = assms(3)[unfolded compute_geometry_phases[OF assms(1,2)], simplified, symmetric]
  have ts: "top_start p = 1 + int (nat (p + 1))" by (simp add: top_start_def)
  have "node_ids g = ids 1 (nat (p + 1))
          @ ids (1 + int (nat (p + 1))) (length (top_coords lib (spn / of_int p) h p key))"
    unfolding ts[symmetric]
    by (simp add: g node_ids_def bottom_coords_def length_range_int length_ids)
  then show "node_ids g = ids 1 (nat (p + 1) + length (top_coords lib (spn / of_int p) h p key))"
    by (simp only: ids_append)
  show "length (g_nodes g) = nat (p + 1) + length (top_coords lib (spn / of_int p) h p key)"
    by (simp add: g bottom_coords_def length_range_int length_ids)
  show "g_members g = zip (ids 1 (length (all_edges key p))) (all_edges key p)"
    by (simp add: g members_member_phase)
  show "g_bot_ch g @ g_top_ch g @ g_verts g @ g_diags g = ids 1 (length (all_edges key p))"
    using role_lists_member_phase[of key p] by (simp add: g)
qed

lemma compute_geometry_returns:
  "p \<noteq> 0 \<Longrightarrow> btype_key btype = Inr key \<Longrightarrow> \<exists>g. compute_geometry lib spn h p btype = Inr g"
  by (simp add: compute_geometry_phases)

text \<open>
  Claim C1. For span > 0, height > 0, panelCount >= 1 and each of the four topologies the
  generator returns a geometry in which the node ids are exactly 1..N and the member ids
  exactly 1..M, none twice; both endpoints of every member are node ids and differ; and
  the four role lists together hold every member id exactly once.
\<close>

theorem C1_ids_endpoints_partition:
  assumes "0 < spn" and "0 < height" and "1 \<le> panels"
    and "btype_key btype = Inr key" and "key \<in> set topologies"
  shows "\<exists>g. compute_geometry lib spn height panels btype = Inr g \<and>
           distinct (node_ids g) \<and> set (node_ids g) = {1..int (length (g_nodes g))} \<and>
           distinct (member_ids g) \<and> set (member_ids g) = {1..int (length (g_members g))} \<and>
           (\<forall>(m, a, b)\<in>set (g_members g).
              a \<in> set (node_ids g) \<and> b \<in> set (node_ids g) \<and> a \<noteq> b) \<and>
           distinct (g_bot_ch g @ g_top_ch g @ g_verts g @ g_diags g) \<and>
           set (g_bot_ch g @ g_top_ch g @ g_verts g @ g_diags g) = set (member_ids g)"
proof -
  have p: "panels \<noteq> 0" using assms(3) by simp
  obtain g where g: "compute_geometry lib spn height panels btype = Inr g"
    using compute_geometry_returns[OF p assms(4)] by blast
  note c = compute_geometry_ids[OF p assms(4) g]
  let ?N = "nat (panels + 1) + length (top_coords lib (spn / of_int panels) height panels key)"
  have mids: "member_ids g = ids 1 (length (all_edges key panels))"
    by (simp add: member_ids_def c(3) length_ids)
  have len_m: "length (g_members g) = length (all_edges key panels)"
    by (simp add: c(3) length_ids)
  have key': "key \<in> {''pratt'', ''warren'', ''howe'', ''bowstring''}"
    using assms(5) by (simp add: topologies_def)
  have ends: "a \<in> set (node_ids g) \<and> b \<in> set (node_ids g) \<and> a \<noteq> b"
    if "(m, a, b) \<in> set (g_members g)" for m a b
  proof -
    have "(a, b) \<in> set (all_edges key panels)"
      using that unfolding c(3) by (rule set_zip_rightD)
    from edges_valid[OF assms(3) key' this, where pw = "spn / of_int panels" and h = height
        and lib = lib]
    show ?thesis
      by (simp add: c(1) set_ids top_start_def)
  qed
  have "distinct (node_ids g)" by (simp add: c(1) distinct_ids)
  moreover have "set (node_ids g) = {1..int (length (g_nodes g))}"
    by (simp add: c(1) c(2) set_ids)
  moreover have "distinct (member_ids g)" by (simp add: mids distinct_ids)
  moreover have "set (member_ids g) = {1..int (length (g_members g))}"
    by (simp add: mids len_m set_ids)
  moreover have "\<forall>(m, a, b)\<in>set (g_members g).
              a \<in> set (node_ids g) \<and> b \<in> set (node_ids g) \<and> a \<noteq> b"
    using ends by blast
  moreover have "distinct (g_bot_ch g @ g_top_ch g @ g_verts g @ g_diags g)"
    by (simp only: c(4) distinct_ids)
  moreover have "set (g_bot_ch g @ g_top_ch g @ g_verts g @ g_diags g) = set (member_ids g)"
    by (simp only: c(4) mids)
  ultimately show ?thesis using g by blast
qed

lemma BRIDGE_TYPES_keys: "map btype_key BRIDGE_TYPES = map Inr topologies"
  by (simp add: BRIDGE_TYPES_def topologies_def btype_key_def split_ws_def lower_def
      lower_char_def is_space_def idx_def)

lemma btype_key_no_break_space:
  "btype_key [CHR 0xA0] = Inl IndexError"
  "btype_key (''Pratt'' @ [CHR 0xA0] @ ''Truss'') = Inr ''pratt''"
  "btype_key (''PRATT'' @ [CHR 0x85]) = Inr ''pratt''"
  by (simp_all add: btype_key_def split_ws_def lower_def lower_char_def is_space_def idx_def)

lemma btype_key_Pratt: "btype_key ''Pratt Truss'' = Inr ''pratt''"
  by (simp add: btype_key_def split_ws_def lower_def lower_char_def is_space_def idx_def)

theorem C1_ids_endpoints_partition_witness:
  "\<exists>g. compute_geometry exact_math 120 20 8 ''Pratt Truss'' = Inr g \<and>
           distinct (node_ids g) \<and> set (node_ids g) = {1..int (length (g_nodes g))} \<and>
           distinct (member_ids g) \<and> set (member_ids g) = {1..int (length (g_members g))} \<and>
           (\<forall>(m, a, b)\<in>set (g_members g).
              a \<in> set (node_ids g) \<and> b \<in> set (node_ids g) \<and> a \<noteq> b) \<and>
           distinct (g_bot_ch g @ g_top_ch g @ g_verts g @ g_diags g) \<and>
           set (g_bot_ch g @ g_top_ch g @ g_verts g @ g_diags g) = set (member_ids g)"
  by (rule C1_ids_endpoints_partition[of 120 20 8 "''Pratt Truss''" "''pratt''" exact_math])
     (simp_all add: btype_key_Pratt topologies_def)

lemma compute_geometry_fields:
  assumes "p \<noteq> 0" and "btype_key btype = Inr key"
    and "compute_geometry lib spn h p btype = Inr g"
  shows "g_bottom g = ids 1 (nat (p + 1))"
    and "g_top g = ids (top_start p) (length (top_coords lib (spn / of_int p) h p key))"
    and "g_nodes g = zip (ids 1 (nat (p + 1))) (bottom_coords (spn / of_int p) p)
                   @ zip (ids (top_start p) (length (top_coords lib (spn / of_int p) h p key)))
                       (top_coords lib (spn / of_int p) h p key)"
    and "g_bot_ch g = ids 1 (length (bottom_chord_edges p))"
    and "g_top_ch g = ids (1 + int (length (bottom_chord_edges p))) (length (top_chord_edges key p))"
    and "g_verts g = ids (1 + int (length (bottom_chord_edges p)) + int (length (top_chord_edges key p)))
                       (length (vertical_edges key p))"
    and "g_diags g = ids (1 + int (length (bottom_chord_edges p)) + int (length (top_chord_edges key p))
                          + int (length (vertical_edges key p))) (length (diagonal_edges key p))"
proof -
  note g = assms(3)[unfolded compute_geometry_phases[OF assms(1,2)], simplified, symmetric]
  show "g_bottom g = ids 1 (nat (p + 1))" by (simp add: g)
  show "g_top g = ids (top_start p) (length (top_coords lib (spn / of_int p) h p key))"
    by (simp add: g)
  show "g_nodes g = zip (ids 1 (nat (p + 1))) (bottom_coords (spn / of_int p) p)
                   @ zip (ids (top_start p) (length (top_coords lib (spn / of_int p) h p key)))
                       (top_coords lib (spn / of_int p) h p key)"
    by (simp add: g)
  show "g_bot_ch g = ids 1 (length (bottom_chord_edges p))"
    by (simp add: g member_phase_closed)
  show "g_top_ch g = ids (1 + int (length (bottom_chord_edges p))) (length (top_chord_edges key p))"
    by (simp add: g member_phase_closed)
  show "g_verts g = ids (1 + int (length (bottom_chord_edges p)) + int (length (top_chord_edges key p)))
                       (length (vertical_edges key p))"
    by (simp add: g member_phase_closed)
  show "g_diags g = ids (1 + int (length (bottom_chord_edges p)) + int (length (top_chord_edges key p))
                          + int (length (vertical_edges key p))) (length (diagonal_edges key p))"
    by (simp add: g member_phase_closed)
qed

lemma member_lookup:
  assumes "p \<noteq> 0" and "btype_key btype = Inr key"
    and "compute_geometry lib spn h p btype = Inr g"
    and "j < length (all_edges key p)"
  shows "map_of (g_members g) (1 + int j) = Some (all_edges key p ! j)"
  unfolding compute_geometry_ids(3)[OF assms(1,2,3)]
  by (rule map_of_zip_ids[OF assms(4)])

lemma diagonal_lookup:
  assumes "p \<noteq> 0" and "btype_key btype = Inr key"
    and "compute_geometry lib spn h p btype = Inr g"
    and "j < length (diagonal_edges key p)"
  shows "map_of (g_members g) (g_diags g ! j) = Some (diagonal_edges key p ! j)"
proof -
  let ?k = "length (bottom_chord_edges p) + length (top_chord_edges key p)
            + length (vertical_edges key p)"
  have d: "g_diags g ! j = 1 + int (?k + j)"
    by (simp add: compute_geometry_fields(7)[OF assms(1,2,3)] nth_ids assms(4))
  have lt: "?k + j < length (all_edges key p)"
    using assms(4) by (simp add: all_edges_def)
  have nth: "all_edges key p ! (?k + j) = diagonal_edges key p ! j"
    by (simp add: all_edges_def nth_append)
  show ?thesis
    unfolding d member_lookup[OF assms(1,2,3) lt] nth ..
qed

text \<open>
  Claim C3. For panelCount >= 1 and \<open>half = panelCount // 2\<close>, the Pratt generator
  produces exactly one diagonal per panel: panel \<open>i < half\<close> gets
  \<open>(top[i], bottom[i+1])\<close> and panel \<open>i \<ge> half\<close> gets \<open>(bottom[i], top[i+1])\<close>; the Howe
  generator assigns the two the other way round. The rule is the same for odd and even
  panel counts.
\<close>

theorem C3_pratt_howe_diagonals:
  assumes "1 \<le> panels" and "btype_key btype = Inr key" and "key \<in> {''pratt'', ''howe''}"
  shows "\<exists>g. compute_geometry lib spn height panels btype = Inr g \<and>
           length (g_diags g) = nat panels \<and>
           (\<forall>i\<in>{0..<panels}.
              map_of (g_members g) (g_diags g ! nat i) =
                Some (if key = ''pratt''
                      then (if i < panels div 2
                            then (g_top g ! nat i, g_bottom g ! nat (i + 1))
                            else (g_bottom g ! nat i, g_top g ! nat (i + 1)))
                      else (if i < panels div 2
                            then (g_bottom g ! nat i, g_top g ! nat (i + 1))
                            else (g_top g ! nat i, g_bottom g ! nat (i + 1)))))"
proof -
  have p: "panels \<noteq> 0" using assms(1) by simp
  obtain g where g: "compute_geometry lib spn height panels btype = Inr g"
    using compute_geometry_returns[OF p assms(2)] by blast
  note f = compute_geometry_fields[OF p assms(2) g]
  have len: "length (diagonal_edges key panels) = nat panels"
    using assms(3) by (auto simp: length_diagonal_edges)
  have nt: "length (top_coords lib (spn / of_int panels) height panels key) = nat (panels + 1)"
    using assms(3) by (auto simp: length_top_coords)
  have "map_of (g_members g) (g_diags g ! nat i) =
                Some (if key = ''pratt''
                      then (if i < panels div 2
                            then (g_top g ! nat i, g_bottom g ! nat (i + 1))
                            else (g_bottom g ! nat i, g_top g ! nat (i + 1)))
                      else (if i < panels div 2
                            then (g_bottom g ! nat i, g_top g ! nat (i + 1))
                            else (g_top g ! nat i, g_bottom g ! nat (i + 1))))"
    if i: "i \<in> {0..<panels}" for i
  proof -
    have j: "nat i < length (diagonal_edges key panels)" using i by (simp add: len)
    have r: "range_int panels ! nat i = i" using i by (simp add: nth_range_int)
    have lr: "nat i < length (range_int panels)" using i by (simp add: length_range_int)
    have e: "diagonal_edges key panels ! nat i =
        (if key = ''pratt''
         then (if i < panels div 2 then (top_start panels + i, 1 + (i + 1))
               else (1 + i, top_start panels + (i + 1)))
         else (if i < panels div 2 then (1 + i, top_start panels + (i + 1))
               else (top_start panels + i, 1 + (i + 1))))"
      using assms(3) lr by (auto simp: diagonal_edges_def Let_def r)
    have n: "g_top g ! nat i = top_start panels + i"
      "g_top g ! nat (i + 1) = top_start panels + (i + 1)"
      "g_bottom g ! nat i = 1 + i" "g_bottom g ! nat (i + 1) = 1 + (i + 1)"
      using i by (simp_all add: f(1,2) nt nth_ids)
    show ?thesis
      unfolding diagonal_lookup[OF p assms(2) g j] e n by simp
  qed
  moreover have "length (g_diags g) = nat panels"
    by (simp add: f(7) length_ids len)
  ultimately show ?thesis using g by blast
qed

lemma btype_key_Howe: "btype_key ''Howe Truss'' = Inr ''howe''"
  by (simp add: btype_key_def split_ws_def lower_def lower_char_def is_space_def idx_def)

theorem C3_pratt_howe_diagonals_witness:
  "\<exists>g. compute_geometry exact_math 120 20 7 ''Howe Truss'' = Inr g \<and>
           length (g_diags g) = 7 \<and>
           map_of (g_members g) (g_diags g ! 2) = Some (g_bottom g ! 2, g_top g ! 3) \<and>
           map_of (g_members g) (g_diags g ! 3) = Some (g_top g ! 3, g_bottom g ! 4)"
proof -
  obtain g where g: "compute_geometry exact_math 120 20 7 ''Howe Truss'' = Inr g"
    and l: "length (g_diags g) = nat 7"
    and d: "\<forall>i\<in>{0..<7}.
              map_of (g_members g) (g_diags g ! nat i) =
                Some (if ''howe'' = ''pratt''
                      then (if i < 7 div 2
                            then (g_top g ! nat i, g_bottom g ! nat (i + 1))
                            else (g_bottom g ! nat i, g_top g ! nat (i + 1)))
                      else (if i < 7 div 2
                            then (g_bottom g ! nat i, g_top g ! nat (i + 1))
                            else (g_top g ! nat i, g_bottom g ! nat (i + 1))))"
    using C3_pratt_howe_diagonals[of 7 "''Howe Truss''" "''howe''" exact_math 120 20]
    by (auto simp: btype_key_Howe)
  from d[rule_format, of 2] d[rule_format, of 3] g l show ?thesis by simp
qed

lemma length_bottom_coords: "length (bottom_coords pw p) = nat (p + 1)"
  by (simp add: bottom_coords_def length_range_int)

lemma nodes_single_zip:
  assumes "p \<noteq> 0" and "btype_key btype = Inr key"
    and "compute_geometry lib spn h p btype = Inr g"
  shows "g_nodes g = zip (ids 1 (length (node_coords lib (spn / of_int p) h p key)))
                       (node_coords lib (spn / of_int p) h p key)"
proof -
  let ?bc = "bottom_coords (spn / of_int p) p" and ?tc = "top_coords lib (spn / of_int p) h p key"
  have "zip (ids 1 (nat (p + 1))) ?bc @ zip (ids (1 + int (nat (p + 1))) (length ?tc)) ?tc
        = zip (ids 1 (nat (p + 1) + length ?tc)) (?bc @ ?tc)"
    by (rule zip_ids_append) (simp add: length_bottom_coords)
  then show ?thesis
    by (simp add: compute_geometry_fields(3)[OF assms] top_start_def node_coords_def
        length_bottom_coords)
qed

lemma bottom_node_lookup:
  assumes "p \<noteq> 0" and "btype_key btype = Inr key"
    and "compute_geometry lib spn h p btype = Inr g"
    and "j < nat (p + 1)"
  shows "map_of (g_nodes g) (g_bottom g ! j) = Some (bottom_coords (spn / of_int p) p ! j)"
proof -
  let ?cs = "node_coords lib (spn / of_int p) h p key"
  have lt: "j < length ?cs" using assms(4) by (simp add: node_coords_def length_bottom_coords)
  have b: "g_bottom g ! j = 1 + int j"
    by (simp add: compute_geometry_fields(1)[OF assms(1,2,3)] nth_ids assms(4))
  have n: "?cs ! j = bottom_coords (spn / of_int p) p ! j"
    using assms(4) by (simp add: node_coords_def nth_append length_bottom_coords)
  show ?thesis
    unfolding b nodes_single_zip[OF assms(1,2,3)] map_of_zip_ids[OF lt] n ..
qed

lemma top_node_lookup:
  assumes "p \<noteq> 0" and "btype_key btype = Inr key"
    and "compute_geometry lib spn h p btype = Inr g"
    and "j < length (top_coords lib (spn / of_int p) h p key)"
  shows "map_of (g_nodes g) (g_top g ! j) = Some (top_coords lib (spn / of_int p) h p key ! j)"
proof -
  let ?cs = "node_coords lib (spn / of_int p) h p key"
  have lt: "nat (p + 1) + j < length ?cs"
    using assms(4) by (simp add: node_coords_def length_bottom_coords)
  have b: "g_top g ! j = 1 + int (nat (p + 1) + j)"
    by (simp add: compute_geometry_fields(2)[OF assms(1,2,3)] nth_ids assms(4) top_start_def)
  have n: "?cs ! (nat (p + 1) + j) = top_coords lib (spn / of_int p) h p key ! j"
    by (simp add: node_coords_def nth_append length_bottom_coords)
  show ?thesis
    unfolding b nodes_single_zip[OF assms(1,2,3)] map_of_zip_ids[OF lt] n ..
qed

lemma nth_concat_pairs:
  "i < length xs \<Longrightarrow>
   concat (map (\<lambda>i. [f i, g i]) xs) ! (2 * i) = f (xs ! i) \<and>
   concat (map (\<lambda>i. [f i, g i]) xs) ! (2 * i + 1) = g (xs ! i)"
proof (induction xs arbitrary: i)
  case Nil
  then show ?case by simp
next
  case (Cons x xs)
  show ?case
  proof (cases i)
    case 0
    then show ?thesis by simp
  next
    case (Suc k)
    with Cons.prems have "k < length xs" by simp
    from Cons.IH[OF this] show ?thesis by (simp add: Suc)
  qed
qed

lemma btype_key_Warren: "btype_key ''Warren Truss'' = Inr ''warren''"
  by (simp add: btype_key_def split_ws_def lower_def lower_char_def is_space_def idx_def)

lemmas geometry_eval =
  compute_geometry_def bind_res_def top_nodes_def bottom_nodes_def range_int_def upto.simps
  put_top_def put_bottom_def round4_def round_half_even_def bottom_chords_def
  topology_members_def pratt_howe_members_def warren_members_def bowstring_members_def
  connect_def idx_def add_member_def btype_key_def split_ws_def lower_def lower_char_def
  is_space_def exact_math_def

text \<open>
  Claim C4, as stated, places the Warren apex nodes at \<open>x = (i + 0.5) * panelWidth\<close>.
  The generator rounds the abscissa: with span 1 and three panels the first apex node is
  at \<open>x = 0.1667\<close>, not at \<open>1/6\<close>.
\<close>

theorem C4_apex_abscissa_counterexample:
  "\<not> isl (compute_geometry exact_math 1 1 3 ''Warren Truss'') \<and>
   map_of (g_nodes (projr (compute_geometry exact_math 1 1 3 ''Warren Truss'')))
          (g_top (projr (compute_geometry exact_math 1 1 3 ''Warren Truss'')) ! 0)
     = Some (1667 / 10000, 1, 0) \<and>
   map_of (g_nodes (projr (compute_geometry exact_math 1 1 3 ''Warren Truss'')))
          (g_top (projr (compute_geometry exact_math 1 1 3 ''Warren Truss'')) ! 0)
     \<noteq> Some ((0 + 0.5) * (1 / 3), 1, 0)"
  by (simp add: geometry_eval)

text \<open>
  Claim C4, amended. For panelCount >= 1 the Warren generator produces panelCount + 1
  bottom nodes and panelCount apex nodes, apex \<open>i\<close> at
  \<open>x = (i + 0.5) * panelWidth\<close> rounded to four decimal places and at \<open>y = height\<close>;
  panelCount bottom-chord members, panelCount - 1 top-chord members, no verticals, and
  2 * panelCount diagonals, for each panel \<open>i\<close> one from \<open>bottom[i]\<close> to \<open>top[i]\<close>
  followed by one from \<open>top[i]\<close> to \<open>bottom[i+1]\<close>. For panelCount = 8 that is 17 nodes
  and 31 members.
\<close>

theorem C4_warren_layout:
  assumes "1 \<le> panels" and "btype_key btype = Inr ''warren''"
  shows "\<exists>g. compute_geometry lib spn height panels btype = Inr g \<and>
           length (g_bottom g) = nat (panels + 1) \<and>
           length (g_top g) = nat panels \<and>
           (\<forall>i\<in>{0..<panels}.
              map_of (g_nodes g) (g_top g ! nat i) =
                Some (round4 ((of_int i + 0.5) * (spn / of_int panels)), height, 0)) \<and>
           length (g_bot_ch g) = nat panels \<and>
           length (g_top_ch g) = nat (panels - 1) \<and>
           length (g_diags g) = 2 * nat panels \<and>
           (\<forall>i\<in>{0..<panels}.
              map_of (g_members g) (g_diags g ! (2 * nat i)) =
                Some (g_bottom g ! nat i, g_top g ! nat i) \<and>
              map_of (g_members g) (g_diags g ! (2 * nat i + 1)) =
                Some (g_top g ! nat i, g_bottom g ! nat (i + 1))) \<and>
           g_verts g = [] \<and>
           (panels = 8 \<longrightarrow> length (g_nodes g) = 17 \<and> length (g_members g) = 31)"
proof -
  have p: "panels \<noteq> 0" using assms(1) by simp
  obtain g where g: "compute_geometry lib spn height panels btype = Inr g"
    using compute_geometry_returns[OF p assms(2)] by blast
  note f = compute_geometry_fields[OF p assms(2) g]
  note c = compute_geometry_ids[OF p assms(2) g]
  let ?pw = "spn / of_int panels"
  have nt: "length (top_coords lib ?pw height panels ''warren'') = nat panels"
    by (simp add: length_top_coords)
  have ld: "length (diagonal_edges ''warren'' panels) = 2 * nat panels"
    by (simp add: length_diagonal_edges)
  have apex: "map_of (g_nodes g) (g_top g ! nat i) =
                Some (round4 ((of_int i + 0.5) * ?pw), height, 0)"
    if i: "i \<in> {0..<panels}" for i
  proof -
    have j: "nat i < length (top_coords lib ?pw height panels ''warren'')"
      using i by (simp add: nt)
    have lr: "nat i < length (range_int panels)" using i by (simp add: length_range_int)
    have r: "range_int panels ! nat i = i" using i by (simp add: nth_range_int)
    show ?thesis
      unfolding top_node_lookup[OF p assms(2) g j]
      using lr by (simp add: top_coords_def r)
  qed
  have diag: "map_of (g_members g) (g_diags g ! (2 * nat i)) =
                Some (g_bottom g ! nat i, g_top g ! nat i) \<and>
              map_of (g_members g) (g_diags g ! (2 * nat i + 1)) =
                Some (g_top g ! nat i, g_bottom g ! nat (i + 1))"
    if i: "i \<in> {0..<panels}" for i
  proof -
    have j: "2 * nat i < length (diagonal_edges ''warren'' panels)"
      "2 * nat i + 1 < length (diagonal_edges ''warren'' panels)"
      using i unfolding ld by auto
    have lr: "nat i < length (range_int panels)" using i by (simp add: length_range_int)
    have r: "range_int panels ! nat i = i" using i by (simp add: nth_range_int)
    have e: "diagonal_edges ''warren'' panels ! (2 * nat i) = (1 + i, top_start panels + i)"
      "diagonal_edges ''warren'' panels ! (2 * nat i + 1) = (top_start panels + i, 1 + (i + 1))"
      using nth_concat_pairs[OF lr, of "\<lambda>i. (1 + i, top_start panels + i)"
          "\<lambda>i. (top_start panels + i, 1 + (i + 1))"]
      by (simp_all add: diagonal_edges_def Let_def r)
    have n: "g_top g ! nat i = top_start panels + i"
      "g_bottom g ! nat i = 1 + i" "g_bottom g ! nat (i + 1) = 1 + (i + 1)"
      using i by (simp_all add: f(1,2) nt nth_ids)
    show ?thesis
      unfolding diagonal_lookup[OF p assms(2) g j(1)] diagonal_lookup[OF p assms(2) g j(2)] e n
      by simp
  qed
  have counts: "length (g_nodes g) = 17 \<and> length (g_members g) = 31" if "panels = 8"
    using that
    by (simp add: c(2) c(3) length_ids length_top_coords all_edges_def length_bottom_chord_edges
        length_top_chord_edges length_vertical_edges length_diagonal_edges)
  have "length (g_bottom g) = nat (panels + 1)" by (simp add: f(1) length_ids)
  moreover have "length (g_top g) = nat panels" by (simp add: f(2) length_ids nt)
  moreover have "length (g_bot_ch g) = nat panels"
    by (simp add: f(4) length_ids length_bottom_chord_edges)
  moreover have "length (g_top_ch g) = nat (panels - 1)"
    by (simp add: f(5) length_ids length_top_chord_edges)
  moreover have "length (g_diags g) = 2 * nat panels" by (simp add: f(7) length_ids ld)
  moreover have "g_verts g = []" by (simp add: f(6) length_vertical_edges ids_0)
  ultimately show ?thesis using g apex diag counts by blast
qed

theorem C4_warren_layout_witness:
  "\<exists>g. compute_geometry exact_math 120 20 8 ''Warren Truss'' = Inr g \<and>
       length (g_bottom g) = 9 \<and> length (g_top g) = 8 \<and>
       map_of (g_nodes g) (g_top g ! 3) = Some (52.5, 20, 0) \<and>
       length (g_bot_ch g) = 8 \<and> length (g_top_ch g) = 7 \<and> length (g_diags g) = 16 \<and>
       map_of (g_members g) (g_diags g ! 6) = Some (g_bottom g ! 3, g_top g ! 3) \<and>
       map_of (g_members g) (g_diags g ! 7) = Some (g_top g ! 3, g_bottom g ! 4) \<and>
       g_verts g = [] \<and> length (g_nodes g) = 17 \<and> length (g_members g) = 31"
proof -
  obtain g where g: "compute_geometry exact_math 120 20 8 ''Warren Truss'' = Inr g"
    and l: "length (g_bottom g) = nat (8 + 1)" "length (g_top g) = nat 8"
      "length (g_bot_ch g) = nat 8" "length (g_top_ch g) = nat (8 - 1)"
      "length (g_diags g) = 2 * nat 8" "g_verts g = []"
      "length (g_nodes g) = 17" "length (g_members g) = 31"
    and a: "\<forall>i\<in>{0..<8}. map_of (g_nodes g) (g_top g ! nat i) =
                Some (round4 ((of_int i + 0.5) * (120 / of_int 8)), 20, 0)"
    and d: "\<forall>i\<in>{0..<8}.
              map_of (g_members g) (g_diags g ! (2 * nat i)) =
                Some (g_bottom g ! nat i, g_top g ! nat i) \<and>
              map_of (g_members g) (g_diags g ! (2 * nat i + 1)) =
                Some (g_top g ! nat i, g_bottom g ! nat (i + 1))"
    using C4_warren_layout[of 8 "''Warren Truss''" exact_math 120 20]
    by (auto simp: btype_key_Warren)
  have r: "round4 ((3 + 0.5) * (120 / 8)) = 52.5"
    by (simp add: round4_def round_half_even_def)
  from a[rule_format, of 3] d[rule_format, of 3] g l r show ?thesis by simp
qed

lemma round4_0: "round4 0 = 0"
  by (simp add: round4_def round_half_even_def)

lemma round_half_even_of_int: "round_half_even (of_int k) = k"
  by (simp add: round_half_even_def)

lemma rounded4_round4: "rounded4 (round4 v)"
  by (simp add: rounded4_def round4_def round_half_even_of_int)

lemma half_ratio:
  assumes "even (p::int)" and "p \<noteq> 0"
  shows "real_of_int (p div 2) / real_of_int p = 1 / 2"
proof -
  from assms(1) obtain k where k: "p = 2 * k" by (auto elim: evenE)
  with assms(2) have "k \<noteq> 0" by simp
  then show ?thesis by (simp add: k)
qed

lemma btype_key_Bowstring: "btype_key ''Bowstring Arch'' = Inr ''bowstring''"
  by (simp add: btype_key_def split_ws_def lower_def lower_char_def is_space_def idx_def)

text \<open>
  Claim C5, as stated, puts the Bowstring top nodes at \<open>y = height * sin(pi * i / panelCount)\<close>
  and the midspan node of an even panel count at \<open>y = height\<close>. The generator rounds the
  ordinate: with height 20.00001 and two panels the midspan top node is at \<open>y = 20\<close>.
\<close>

theorem C5_midspan_ordinate_counterexample:
  "\<not> isl (compute_geometry exact_math 120 (2000001 / 100000) 2 ''Bowstring Arch'') \<and>
   node_y (projr (compute_geometry exact_math 120 (2000001 / 100000) 2 ''Bowstring Arch''))
          (g_top (projr (compute_geometry exact_math 120 (2000001 / 100000) 2 ''Bowstring Arch'')) ! 1)
     = Some 20 \<and>
   node_y (projr (compute_geometry exact_math 120 (2000001 / 100000) 2 ''Bowstring Arch''))
          (g_top (projr (compute_geometry exact_math 120 (2000001 / 100000) 2 ''Bowstring Arch'')) ! 1)
     \<noteq> Some (2000001 / 100000 * sin (pi * 1 / 2)) \<and>
   node_y (projr (compute_geometry exact_math 120 (2000001 / 100000) 2 ''Bowstring Arch''))
          (g_top (projr (compute_geometry exact_math 120 (2000001 / 100000) 2 ''Bowstring Arch'')) ! 1)
     \<noteq> Some (2000001 / 100000)"
  by (simp add: geometry_eval node_y_def)

text \<open>
  The last top node is at \<open>y = 0\<close> only as far as rounding hides the sine of the float
  \<open>pi\<close>. With the value an IEEE double library returns for \<^verbatim>\<open>math.sin(math.pi)\<close>,
  \<open>4967757600021511 / 2^105\<close> (about \<open>1.22e-16\<close>), a height of \<open>10^12\<close> puts it at
  \<open>y = 0.0001\<close>.
\<close>

lemma bowstring_last_node_large_height:
  assumes "math_sin lib (math_pi lib) = 4967757600021511 / 2 ^ 105"
  shows "\<not> isl (compute_geometry lib 120 (10 ^ 12) 2 ''Bowstring Arch'') \<and>
         node_y (projr (compute_geometry lib 120 (10 ^ 12) 2 ''Bowstring Arch''))
                (g_top (projr (compute_geometry lib 120 (10 ^ 12) 2 ''Bowstring Arch'')) ! 2)
           = Some (1 / 10000)"
  apply (simp add: compute_geometry_def bind_res_def top_nodes_def bottom_nodes_def range_int_def
      upto.simps put_top_def put_bottom_def bottom_chords_def topology_members_def
      bowstring_members_def connect_def idx_def add_member_def btype_key_Bowstring node_y_def)
  apply (simp only: assms)
  apply (simp add: round4_def round_half_even_def)
  done

lemma round4_small:
  assumes "\<bar>v\<bar> < 1 / 20000"
  shows "round4 v = 0"
proof (cases "0 \<le> v")
  case True
  with assms have "\<lfloor>v * 10000\<rfloor> = 0" by (intro floor_unique) auto
  with assms True show ?thesis by (simp add: round4_def round_half_even_def)
next
  case False
  with assms have "\<lfloor>v * 10000\<rfloor> = - 1" by (intro floor_unique) auto
  with assms False show ?thesis by (simp add: round4_def round_half_even_def)
qed

text \<open>
  Claim C5, amended. For every valid input the Bowstring generator places panelCount + 1
  top nodes, node \<open>i\<close> at \<open>y = height * math.sin((i / panelCount) * math.pi)\<close> rounded to
  four decimal places. The first top node has \<open>y = 0\<close>; the last top node has \<open>y = 0\<close> for
  every height up to \<open>10^11\<close>; and for an even panelCount the top node at
  \<open>i = panelCount / 2\<close> has \<open>y = height\<close> rounded to four decimal places, which is
  \<open>height\<close> itself when \<open>height\<close> has at most four decimal places. Of the library this
  takes that the sine of 0 is 0, that the sine of half its \<open>pi\<close> is 1, and that the sine of
  its \<open>pi\<close> is at most \<open>2^-52\<close> in absolute value, as holds of IEEE doubles.
\<close>

theorem C5_bowstring_arch:
  assumes "0 < spn" and "0 < height" and "1 \<le> panels"
    and "btype_key btype = Inr ''bowstring''"
    and "math_sin lib 0 = 0"
    and "math_sin lib (math_pi lib / 2) = 1"
    and "\<bar>math_sin lib (math_pi lib)\<bar> \<le> 1 / 2 ^ 52"
  shows "\<exists>g. compute_geometry lib spn height panels btype = Inr g \<and>
           length (g_top g) = nat (panels + 1) \<and>
           (\<forall>i\<in>{0..panels}.
              map_of (g_nodes g) (g_top g ! nat i) =
                Some (round4 (of_int i * (spn / of_int panels)),
                      round4 (height *
                              math_sin lib ((of_int i / of_int panels) * math_pi lib)),
                      0)) \<and>
           node_y g (g_top g ! 0) = Some 0 \<and>
           (height \<le> 10 ^ 11 \<longrightarrow> node_y g (g_top g ! nat panels) = Some 0) \<and>
           (even panels \<longrightarrow>
              node_y g (g_top g ! nat (panels div 2)) = Some (round4 height) \<and>
              (rounded4 height \<longrightarrow> node_y g (g_top g ! nat (panels div 2)) = Some height))"
proof -
  have p: "panels \<noteq> 0" using assms(3) by simp
  obtain g where g: "compute_geometry lib spn height panels btype = Inr g"
    using compute_geometry_returns[OF p assms(4)] by blast
  note f = compute_geometry_fields[OF p assms(4) g]
  let ?pw = "spn / of_int panels"
  let ?y = "\<lambda>i::int. round4 (height *
                math_sin lib ((of_int i / of_int panels) * math_pi lib))"
  have nt: "length (top_coords lib ?pw height panels ''bowstring'') = nat (panels + 1)"
    by (simp add: length_top_coords)
  have node: "map_of (g_nodes g) (g_top g ! nat i) = Some (round4 (of_int i * ?pw), ?y i, 0)"
    if i: "i \<in> {0..panels}" for i
  proof -
    have j: "nat i < length (top_coords lib ?pw height panels ''bowstring'')"
      using i by (simp add: nt)
    have lr: "nat i < length (range_int (panels + 1))" using i by (simp add: length_range_int)
    have r: "range_int (panels + 1) ! nat i = i" using i by (simp add: nth_range_int)
    show ?thesis
      unfolding top_node_lookup[OF p assms(4) g j]
      using lr by (simp add: top_coords_def r)
  qed
  have ny: "node_y g (g_top g ! nat i) = Some (?y i)" if "i \<in> {0..panels}" for i
    using node[OF that] by (simp add: node_y_def)
  have y0: "node_y g (g_top g ! 0) = Some 0"
    using ny[of 0] assms(3) by (simp add: assms(5) round4_0)
  have yn: "node_y g (g_top g ! nat panels) = Some 0" if h: "height \<le> 10 ^ 11"
  proof -
    let ?s = "math_sin lib (math_pi lib)"
    have "\<bar>height * ?s\<bar> = height * \<bar>?s\<bar>"
      using assms(2) by (simp add: abs_mult)
    also have "\<dots> \<le> 10 ^ 11 * (1 / 2 ^ 52)"
      using h assms(2,7) by (intro mult_mono) auto
    also have "\<dots> < 1 / 20000" by simp
    finally have "round4 (height * ?s) = 0" by (rule round4_small)
    moreover have "?y panels = round4 (height * ?s)" using p by simp
    ultimately show ?thesis using ny[of panels] assms(3) by simp
  qed
  have ym: "node_y g (g_top g ! nat (panels div 2)) = Some (round4 height)" if e: "even panels"
  proof -
    have "panels div 2 \<in> {0..panels}" using assms(3) by auto
    from ny[OF this] show ?thesis
      by (simp add: half_ratio[OF e p] assms(6))
  qed
  have "length (g_top g) = nat (panels + 1)" by (simp add: f(2) length_ids nt)
  moreover have "even panels \<longrightarrow>
              node_y g (g_top g ! nat (panels div 2)) = Some (round4 height) \<and>
              (rounded4 height \<longrightarrow> node_y g (g_top g ! nat (panels div 2)) = Some height)"
    using ym by (auto simp: rounded4_def)
  ultimately show ?thesis using g node y0 yn by blast
qed

theorem C5_bowstring_arch_witness:
  "\<exists>g. compute_geometry exact_math 120 20 8 ''Bowstring Arch'' = Inr g \<and>
       length (g_top g) = 9 \<and>
       node_y g (g_top g ! 0) = Some 0 \<and>
       node_y g (g_top g ! 8) = Some 0 \<and>
       node_y g (g_top g ! 4) = Some 20"
proof -
  have r: "rounded4 20" by (simp add: rounded4_def round4_def round_half_even_def)
  obtain g where g: "compute_geometry exact_math 120 20 8 ''Bowstring Arch'' = Inr g"
    and l: "length (g_top g) = nat (8 + 1)" "node_y g (g_top g ! 0) = Some 0"
    and n: "(20::real) \<le> 10 ^ 11 \<longrightarrow> node_y g (g_top g ! nat 8) = Some 0"
    and m: "even (8::int) \<longrightarrow>
              node_y g (g_top g ! nat (8 div 2)) = Some (round4 20) \<and>
              (rounded4 20 \<longrightarrow> node_y g (g_top g ! nat (8 div 2)) = Some 20)"
    using C5_bowstring_arch[of 120 20 8 "''Bowstring Arch''" exact_math]
    by (auto simp: btype_key_Bowstring exact_math_def)
  from g l n m r show ?thesis by (simp add: rounded4_def)
qed

lemma ids_disjoint: "set (ids a m) \<inter> set (ids (a + int m) n) = {}"
  by (auto simp: set_ids)

text \<open>
  Claim C6, as stated, has every coordinate of every node rounded to four decimal places.
  The ordinate of a flat top chord is \<^verbatim>\<open>float(height)\<close>, stored as given: with height
  20.00001 the first top node of a Pratt truss has \<open>y = 20.00001\<close>.
\<close>

theorem C6_flat_top_ordinate_counterexample:
  "\<not> isl (compute_geometry exact_math 120 (2000001 / 100000) 1 ''Pratt Truss'') \<and>
   node_y (projr (compute_geometry exact_math 120 (2000001 / 100000) 1 ''Pratt Truss''))
          (g_top (projr (compute_geometry exact_math 120 (2000001 / 100000) 1 ''Pratt Truss'')) ! 0)
     = Some (2000001 / 100000) \<and>
   \<not> rounded4 (2000001 / 100000)"
  by (simp add: geometry_eval node_y_def rounded4_def)

text \<open>
  Claim C6, amended. For every valid input and every topology, the x coordinate of every
  node is rounded to four decimal places and z is 0; the y coordinate of every bottom node
  is 0; the y coordinate of every Bowstring top node is rounded to four decimal places,
  and the y coordinate of every top node of the other topologies is the height as given.
\<close>

theorem C6_coordinates:
  assumes "0 < spn" and "0 < height" and "1 \<le> panels"
    and "btype_key btype = Inr key" and "key \<in> set topologies"
  shows "\<exists>g. compute_geometry lib spn height panels btype = Inr g \<and>
           (\<forall>(n, x, y, z)\<in>set (g_nodes g).
              rounded4 x \<and> z = 0 \<and>
              (n \<in> set (g_bottom g) \<longrightarrow> y = 0) \<and>
              (n \<in> set (g_top g) \<longrightarrow>
                 (if key = ''bowstring'' then rounded4 y else y = height)))"
proof -
  have p: "panels \<noteq> 0" using assms(3) by simp
  obtain g where g: "compute_geometry lib spn height panels btype = Inr g"
    using compute_geometry_returns[OF p assms(4)] by blast
  note f = compute_geometry_fields[OF p assms(4) g]
  let ?pw = "spn / of_int panels"
  let ?tc = "top_coords lib ?pw height panels key"
  have ts: "top_start panels = 1 + int (nat (panels + 1))" by (simp add: top_start_def)
  have dj: "set (g_bottom g) \<inter> set (g_top g) = {}"
    unfolding f(1,2) ts by (rule ids_disjoint)
  have bot: "rounded4 x \<and> z = 0 \<and> y = 0"
    if "(x, y, z) \<in> set (bottom_coords ?pw panels)" for x y z
    using that by (auto simp: bottom_coords_def rounded4_round4)
  have tp: "rounded4 x \<and> z = 0 \<and> (if key = ''bowstring'' then rounded4 y else y = height)"
    if "(x, y, z) \<in> set ?tc" for x y z
    using that by (auto simp: top_coords_def rounded4_round4 split: if_splits)
  have "rounded4 x \<and> z = 0 \<and>
              (n \<in> set (g_bottom g) \<longrightarrow> y = 0) \<and>
              (n \<in> set (g_top g) \<longrightarrow>
                 (if key = ''bowstring'' then rounded4 y else y = height))"
    if m: "(n, x, y, z) \<in> set (g_nodes g)" for n x y z
  proof -
    from m consider
      (b) "(n, x, y, z) \<in> set (zip (ids 1 (nat (panels + 1))) (bottom_coords ?pw panels))"
      | (t) "(n, x, y, z) \<in> set (zip (ids (top_start panels) (length ?tc)) ?tc)"
      unfolding f(3) by auto
    then show ?thesis
    proof cases
      case b
      then have n: "n \<in> set (g_bottom g)" and c: "(x, y, z) \<in> set (bottom_coords ?pw panels)"
        unfolding f(1) by (auto dest: set_zip_leftD set_zip_rightD)
      from n dj have "n \<notin> set (g_top g)" by blast
      with bot[OF c] show ?thesis by simp
    next
      case t
      then have n: "n \<in> set (g_top g)" and c: "(x, y, z) \<in> set ?tc"
        unfolding f(2) by (auto dest: set_zip_leftD set_zip_rightD)
      from n dj have "n \<notin> set (g_bottom g)" by blast
      with tp[OF c] show ?thesis by simp
    qed
  qed
  then show ?thesis using g by blast
qed

theorem C6_coordinates_witness:
  "\<exists>g. compute_geometry exact_math 120 20 8 ''Pratt Truss'' = Inr g \<and>
           (\<forall>(n, x, y, z)\<in>set (g_nodes g).
              rounded4 x \<and> z = 0 \<and>
              (n \<in> set (g_bottom g) \<longrightarrow> y = 0) \<and>
              (n \<in> set (g_top g) \<longrightarrow> y = 20))"
  using C6_coordinates[of 120 20 8 "''Pratt Truss''" "''pratt''" exact_math]
  by (simp add: btype_key_Pratt topologies_def)

section \<open>The exporter's call sequence\<close>

lemma step_calls_append: "step_calls (xs @ ys) = step_calls xs @ step_calls ys"
  by (induction xs rule: step_calls.induct) simp_all

lemma step_calls_map_Call: "step_calls (map (\<lambda>x. Call (f x)) xs) = map f xs"
  by (induction xs) simp_all

lemma exec_calls_prefix:
  "prefix (calls (fst (exec r steps t))) (calls t @ step_calls steps)"
proof (induction r steps t rule: exec.induct)
  case (4 raises c rest t)
  then show ?case by (auto simp: prefix_def)
qed simp_all

lemma prefix_past_marker:
  assumes "prefix xs (q @ m # rest)" and "m \<in> set xs" and "m \<notin> set q"
  shows "set q \<subseteq> set xs"
proof -
  from assms(1) consider "prefix xs q" | us where "xs = q @ us"
    by (auto simp: prefix_append)
  then show ?thesis
  proof cases
    case 1
    then have "set xs \<subseteq> set q" by (rule set_mono_prefix)
    with assms(2,3) show ?thesis by blast
  next
    case 2
    then show ?thesis by simp
  qed
qed

lemma run_calls_prefix:
  assumes "run_in_staad ev cfg = (out, t)"
    and "compute_geometry (libm ev) (cfg_span cfg) (cfg_height cfg) (cfg_panels cfg)
           (cfg_bridge_type cfg) = Inr g"
    and "calls t \<noteq> []"
  shows "\<exists>lu fu. getitem UNIT_OPTIONS (cfg_unit cfg) = Inr (lu, fu) \<and>
           prefix (calls t) (step_calls (try_steps cfg lu fu g))"
proof (cases "openstaadpy_installed ev")
  case False
  with assms(1,3) show ?thesis by (auto simp: run_in_staad_def)
next
  case True
  show ?thesis
  proof (cases "getitem UNIT_OPTIONS (cfg_unit cfg)")
    case (Inl e)
    with assms(1,3) True show ?thesis by (auto simp: run_in_staad_def)
  next
    case (Inr u)
    obtain lu fu where u: "u = (lu, fu)" by (cases u)
    let ?x = "exec (service_raises ev) (try_steps cfg lu fu g) \<lparr>calls = [], logged = []\<rparr>"
    have "calls t = calls (fst ?x)"
      using assms(1) True Inr u assms(2)
      by (auto simp: run_in_staad_def split: prod.splits option.splits)
    moreover have "prefix (calls (fst ?x)) (step_calls (try_steps cfg lu fu g))"
      using exec_calls_prefix[of "service_raises ev" "try_steps cfg lu fu g"
          "\<lparr>calls = [], logged = []\<rparr>"] by simp
    ultimately show ?thesis using Inr u by auto
  qed
qed

lemma step_calls_nodes:
  "step_calls (map (\<lambda>(nid, (x, y, z)). Call (CreateNode nid x y z)) ns) =
     map (\<lambda>(nid, (x, y, z)). CreateNode nid x y z) ns"
  by (induction ns) auto

lemma step_calls_members:
  "step_calls (map (\<lambda>(mid, (n1, n2)). Call (CreateBeam mid n1 n2)) ms) =
     map (\<lambda>(mid, (n1, n2)). CreateBeam mid n1 n2) ms"
  by (induction ms) auto

lemma pre_load_calls_no_load: "c \<in> set (pre_load_calls cfg lu fu g) \<Longrightarrow> \<not> is_load_call c"
  by (auto simp: pre_load_calls_def step_calls_append geometry_steps_def property_steps_def
      release_steps_def support_steps_def step_calls_nodes step_calls_members Let_def
      split: sum.splits if_splits)

lemma try_steps_calls:
  "step_calls (try_steps cfg lu fu g) =
     pre_load_calls cfg lu fu g
     @ step_calls (load_case1_steps (cfg_self_weight cfg) (cfg_dead_load cfg) (cfg_live_load cfg) g)
     @ step_calls (load_case2_steps (cfg_wind_load cfg) g)
     @ [CreateNewLoadCombination ''75 PERCENT DL LL WL'' 3,
        AddLoadAndFactorToCombination 3 1 0.75,
        AddLoadAndFactorToCombination 3 2 0.75,
        SaveModel True, PerformAnalysis 0]"
  by (simp add: try_steps_def pre_load_calls_def step_calls_append combination_steps_def
      final_steps_def)

lemma load_case1_calls:
  "step_calls (load_case1_steps sw dl ll g) =
     [CreateNewPrimaryLoadEx2 Case1 ''DEAD AND LIVE LOAD'' 0 1, SetLoadActive Case1]
     @ (if sw then [AddSelfWeightInXYZ 2 (- 1)] else [])
     @ (if 0 < ll \<and> interior g \<noteq> []
        then map (\<lambda>n. AddNodalLoad [n] 0 (- ll) 0 0 0 0) (interior g) else [])
     @ (if 0 < dl then [AddMemberUniformForce (g_bot_ch g) 2 (- dl) 0 0 0] else [])"
  by (simp add: load_case1_steps_def step_calls_append step_calls_map_Call)

lemma load_case2_calls:
  "step_calls (load_case2_steps wl g) =
     [CreateNewPrimaryLoadEx2 Case2 ''WIND FROM LEFT'' 3 2, SetLoadActive Case2]
     @ (if 0 < wl then [AddMemberUniformForce (wind_members g) 4 wl 0 0 0] else [])"
  by (simp add: load_case2_steps_def)

lemma run_past_marker:
  assumes "run_in_staad ev cfg = (out, t)"
    and "compute_geometry (libm ev) (cfg_span cfg) (cfg_height cfg) (cfg_panels cfg)
           (cfg_bridge_type cfg) = Inr g"
    and "m \<in> set (calls t)"
  shows "\<exists>lu fu. set (calls t) \<subseteq> set (step_calls (try_steps cfg lu fu g)) \<and>
           (\<forall>q rest. step_calls (try_steps cfg lu fu g) = q @ m # rest \<longrightarrow> m \<notin> set q \<longrightarrow>
              set q \<subseteq> set (calls t))"
proof -
  from assms(3) have "calls t \<noteq> []" by auto
  from run_calls_prefix[OF assms(1,2) this] obtain lu fu
    where p: "prefix (calls t) (step_calls (try_steps cfg lu fu g))" by blast
  have "set (calls t) \<subseteq> set (step_calls (try_steps cfg lu fu g))"
    using p by (rule set_mono_prefix)
  moreover have "set q \<subseteq> set (calls t)"
    if "step_calls (try_steps cfg lu fu g) = q @ m # rest" and "m \<notin> set q" for q rest
    using prefix_past_marker[OF p[unfolded that(1)] assms(3) that(2)] .
  ultimately show ?thesis by blast
qed

lemma verticals_iff_not_warren:
  assumes "1 \<le> p" and "btype_key btype = Inr key" and "key \<in> set topologies"
    and "compute_geometry lib spn h p btype = Inr g"
  shows "g_verts g = [] \<longleftrightarrow> key = ''warren''"
proof -
  have p: "p \<noteq> 0" using assms(1) by simp
  have "length (g_verts g) = length (vertical_edges key p)"
    by (simp add: compute_geometry_fields(6)[OF p assms(2,4)] length_ids)
  then have "g_verts g = [] \<longleftrightarrow> length (vertical_edges key p) = 0"
    by (simp only: length_0_conv[symmetric])
  also have "\<dots> \<longleftrightarrow> key = ''warren''"
    using assms(1,3) by (auto simp: length_vertical_edges topologies_def)
  finally show ?thesis .
qed

text \<open>
  Claim C8. In every export that gets past the wind load case (the call that follows it,
  the creation of the load combination, was made), the wind load is applied to the group
  of vertical members if the geometry has one, and to the bottom-chord members otherwise;
  for the four topologies the fallback is the Warren case. The load is applied when its
  magnitude is positive; no other group ever receives a load in the wind direction.
\<close>

theorem C8_wind_target:
  assumes "run_in_staad ev cfg = (out, t)"
    and "compute_geometry (libm ev) (cfg_span cfg) (cfg_height cfg) (cfg_panels cfg)
           (cfg_bridge_type cfg) = Inr g"
    and "CreateNewLoadCombination ''75 PERCENT DL LL WL'' 3 \<in> set (calls t)"
  shows "(0 < cfg_wind_load cfg \<longrightarrow>
            AddMemberUniformForce (if g_verts g \<noteq> [] then g_verts g else g_bot_ch g)
              4 (cfg_wind_load cfg) 0 0 0 \<in> set (calls t)) \<and>
         (\<forall>ms w a b c. AddMemberUniformForce ms 4 w a b c \<in> set (calls t) \<longrightarrow>
            ms = (if g_verts g \<noteq> [] then g_verts g else g_bot_ch g)) \<and>
         (\<forall>key. 1 \<le> cfg_panels cfg \<and> btype_key (cfg_bridge_type cfg) = Inr key \<and>
                key \<in> set topologies \<longrightarrow> (g_verts g = [] \<longleftrightarrow> key = ''warren''))"
proof -
  let ?m = "CreateNewLoadCombination ''75 PERCENT DL LL WL'' 3"
  from run_past_marker[OF assms] obtain lu fu
    where sub: "set (calls t) \<subseteq> set (step_calls (try_steps cfg lu fu g))"
      and past: "\<And>q rest. step_calls (try_steps cfg lu fu g) = q @ ?m # rest \<Longrightarrow> ?m \<notin> set q \<Longrightarrow>
              set q \<subseteq> set (calls t)"
    by blast
  let ?l1 = "step_calls (load_case1_steps (cfg_self_weight cfg) (cfg_dead_load cfg)
               (cfg_live_load cfg) g)"
  let ?l2 = "step_calls (load_case2_steps (cfg_wind_load cfg) g)"
  let ?q = "pre_load_calls cfg lu fu g @ ?l1 @ ?l2"
  have split: "step_calls (try_steps cfg lu fu g) =
      ?q @ ?m # [AddLoadAndFactorToCombination 3 1 0.75, AddLoadAndFactorToCombination 3 2 0.75,
                 SaveModel True, PerformAnalysis 0]"
    by (simp add: try_steps_calls)
  have pre: "?m \<notin> set (pre_load_calls cfg lu fu g)"
    using pre_load_calls_no_load[of ?m cfg lu fu g] by auto
  have notin: "?m \<notin> set ?q"
    using pre by (auto simp: load_case1_calls load_case2_calls)
  have q: "set ?q \<subseteq> set (calls t)" by (rule past[OF split notin])
  have 1: "AddMemberUniformForce (if g_verts g \<noteq> [] then g_verts g else g_bot_ch g)
              4 (cfg_wind_load cfg) 0 0 0 \<in> set (calls t)" if "0 < cfg_wind_load cfg"
  proof -
    have "AddMemberUniformForce (wind_members g) 4 (cfg_wind_load cfg) 0 0 0 \<in> set ?q"
      using that by (simp add: load_case2_calls)
    with q show ?thesis by (auto simp: wind_members_def)
  qed
  have 2: "ms = (if g_verts g \<noteq> [] then g_verts g else g_bot_ch g)"
    if "AddMemberUniformForce ms 4 w a b c \<in> set (calls t)" for ms w a b c
  proof -
    from that sub have "AddMemberUniformForce ms 4 w a b c \<in> set (step_calls (try_steps cfg lu fu g))"
      by blast
    then have "AddMemberUniformForce ms 4 w a b c \<in> set (pre_load_calls cfg lu fu g) \<or>
               ms = wind_members g"
      by (auto simp: try_steps_calls load_case1_calls load_case2_calls split: if_splits)
    moreover have "AddMemberUniformForce ms 4 w a b c \<notin> set (pre_load_calls cfg lu fu g)"
      using pre_load_calls_no_load[of "AddMemberUniformForce ms 4 w a b c" cfg lu fu g] by auto
    ultimately show ?thesis by (simp add: wind_members_def)
  qed
  have 3: "g_verts g = [] \<longleftrightarrow> key = ''warren''"
    if "1 \<le> cfg_panels cfg" "btype_key (cfg_bridge_type cfg) = Inr key" "key \<in> set topologies"
    for key
    using verticals_iff_not_warren[OF that assms(2)] .
  show ?thesis using 1 2 3 by blast
qed


lemmas export_eval =
  run_in_staad_def getitem_def UNIT_OPTIONS_def try_steps_def geometry_steps_def
  property_steps_def release_steps_def support_steps_def interior_def load_case1_steps_def
  load_case2_steps_def wind_members_def combination_steps_def final_steps_def
  default_config_def reachable_service_def

lemma warren_1_geometry:
  "compute_geometry lib 120 20 1 ''Warren Truss'' =
     Inr \<lparr>g_nodes = [(1, 0, 0, 0), (2, 120, 0, 0), (3, 60, 20, 0)],
          g_members = [(1, 1, 2), (2, 1, 3), (3, 3, 2)],
          g_bottom = [1, 2], g_top = [3], g_bot_ch = [1], g_top_ch = [],
          g_verts = [], g_diags = [2, 3]\<rparr>"
  by (simp add: geometry_eval)

theorem C8_wind_target_witness:
  "AddMemberUniformForce [1] 4 (6 / 10) 0 0 0 \<in>
     set (calls (snd (run_in_staad reachable_service
            (default_config\<lparr>cfg_bridge_type := ''Warren Truss'', cfg_panels := 1\<rparr>))))"
proof -
  let ?cfg = "default_config\<lparr>cfg_bridge_type := ''Warren Truss'', cfg_panels := 1\<rparr>"
  let ?g = "\<lparr>g_nodes = [(1, 0, 0, 0), (2, 120, 0, 0), (3, 60, 20, 0)],
          g_members = [(1, 1, 2), (2, 1, 3), (3, 3, 2)],
          g_bottom = [1, 2], g_top = [3], g_bot_ch = [1], g_top_ch = [],
          g_verts = [], g_diags = [2, 3]\<rparr>"
  have g: "compute_geometry (libm reachable_service) (cfg_span ?cfg) (cfg_height ?cfg)
             (cfg_panels ?cfg) (cfg_bridge_type ?cfg) = Inr ?g"
    by (simp add: default_config_def warren_1_geometry)
  have r: "run_in_staad reachable_service ?cfg =
             (fst (run_in_staad reachable_service ?cfg), snd (run_in_staad reachable_service ?cfg))"
    by simp
  have m: "CreateNewLoadCombination ''75 PERCENT DL LL WL'' 3 \<in>
             set (calls (snd (run_in_staad reachable_service ?cfg)))"
    by (simp add: export_eval warren_1_geometry idx_def)
  from C8_wind_target[OF r g m] show ?thesis
    by (simp add: default_config_def)
qed

lemma load_creation_trace:
  assumes "run_in_staad ev cfg = (out, t)"
    and "compute_geometry (libm ev) (cfg_span cfg) (cfg_height cfg) (cfg_panels cfg)
           (cfg_bridge_type cfg) = Inr g"
    and "AddLoadAndFactorToCombination 3 2 0.75 \<in> set (calls t)"
  shows "CreateNewPrimaryLoadEx2 Case1 ''DEAD AND LIVE LOAD'' 0 1 \<in> set (calls t) \<and>
         CreateNewPrimaryLoadEx2 Case2 ''WIND FROM LEFT'' 3 2 \<in> set (calls t) \<and>
         CreateNewLoadCombination ''75 PERCENT DL LL WL'' 3 \<in> set (calls t) \<and>
         ((\<exists>c\<in>set (calls t). is_nodal_load c) \<longleftrightarrow>
            0 < cfg_live_load cfg \<and> interior g \<noteq> []) \<and>
         (0 < cfg_live_load cfg \<longrightarrow>
            (\<forall>n\<in>set (interior g).
               AddNodalLoad [n] 0 (- cfg_live_load cfg) 0 0 0 0 \<in> set (calls t))) \<and>
         ((\<exists>c\<in>set (calls t). is_uniform_force 2 c) \<longleftrightarrow> 0 < cfg_dead_load cfg) \<and>
         (0 < cfg_dead_load cfg \<longrightarrow>
            AddMemberUniformForce (g_bot_ch g) 2 (- cfg_dead_load cfg) 0 0 0 \<in> set (calls t)) \<and>
         ((\<exists>c\<in>set (calls t). is_uniform_force 4 c) \<longleftrightarrow> 0 < cfg_wind_load cfg) \<and>
         (\<forall>ns fx fy fz mx my mz.
            AddNodalLoad ns fx fy fz mx my mz \<in> set (calls t) \<longrightarrow>
              (\<exists>n\<in>set (interior g). ns = [n]) \<and> fx = 0 \<and> fy = - cfg_live_load cfg \<and>
              fz = 0 \<and> mx = 0 \<and> my = 0 \<and> mz = 0)"
proof -
  let ?m = "AddLoadAndFactorToCombination 3 2 0.75"
  from run_past_marker[OF assms] obtain lu fu
    where sub: "set (calls t) \<subseteq> set (step_calls (try_steps cfg lu fu g))"
      and past: "\<And>q rest. step_calls (try_steps cfg lu fu g) = q @ ?m # rest \<Longrightarrow> ?m \<notin> set q \<Longrightarrow>
              set q \<subseteq> set (calls t)"
    by blast
  let ?pre = "pre_load_calls cfg lu fu g"
  let ?l1 = "step_calls (load_case1_steps (cfg_self_weight cfg) (cfg_dead_load cfg)
               (cfg_live_load cfg) g)"
  let ?l2 = "step_calls (load_case2_steps (cfg_wind_load cfg) g)"
  let ?q = "?pre @ ?l1 @ ?l2 @ [CreateNewLoadCombination ''75 PERCENT DL LL WL'' 3,
              AddLoadAndFactorToCombination 3 1 0.75]"
  have split: "step_calls (try_steps cfg lu fu g) = ?q @ ?m # [SaveModel True, PerformAnalysis 0]"
    by (simp add: try_steps_calls)
  have pre: "\<not> is_load_call c" if "c \<in> set ?pre" for c
    using that by (rule pre_load_calls_no_load)
  have notin: "?m \<notin> set ?q"
    using pre[of ?m] by (auto simp: load_case1_calls load_case2_calls)
  have q: "set ?q \<subseteq> set (calls t)" by (rule past[OF split notin])
  have all: "set (calls t) \<subseteq> set ?q \<union> {?m, SaveModel True, PerformAnalysis 0}"
    using sub unfolding split by auto
  have c1: "CreateNewPrimaryLoadEx2 Case1 ''DEAD AND LIVE LOAD'' 0 1 \<in> set (calls t)"
    using q by (auto simp: load_case1_calls)
  have c2: "CreateNewPrimaryLoadEx2 Case2 ''WIND FROM LEFT'' 3 2 \<in> set (calls t)"
    using q by (auto simp: load_case2_calls)
  have c3: "CreateNewLoadCombination ''75 PERCENT DL LL WL'' 3 \<in> set (calls t)"
    using q by auto
  have live_in: "AddNodalLoad [n] 0 (- cfg_live_load cfg) 0 0 0 0 \<in> set (calls t)"
    if "0 < cfg_live_load cfg" "n \<in> set (interior g)" for n
  proof -
    have "AddNodalLoad [n] 0 (- cfg_live_load cfg) 0 0 0 0 \<in> set ?l1"
      using that by (auto simp: load_case1_calls)
    with q show ?thesis by auto
  qed
  have live_only: "0 < cfg_live_load cfg \<and> interior g \<noteq> []"
    if "c \<in> set (calls t)" "is_nodal_load c" for c
  proof -
    from that(1) all have "c \<in> set ?pre \<or> c \<in> set ?l1 \<or> c \<in> set ?l2
        \<or> c \<in> {CreateNewLoadCombination ''75 PERCENT DL LL WL'' 3,
                AddLoadAndFactorToCombination 3 1 0.75, ?m, SaveModel True, PerformAnalysis 0}"
      by auto
    moreover have "c \<notin> set ?pre" using pre[of c] that(2) by (cases c) auto
    ultimately show ?thesis
      using that(2) by (auto simp: load_case1_calls load_case2_calls split: if_splits)
  qed
  have live: "(\<exists>c\<in>set (calls t). is_nodal_load c) \<longleftrightarrow>
            0 < cfg_live_load cfg \<and> interior g \<noteq> []"
  proof
    assume "\<exists>c\<in>set (calls t). is_nodal_load c"
    then show "0 < cfg_live_load cfg \<and> interior g \<noteq> []" using live_only by blast
  next
    assume a: "0 < cfg_live_load cfg \<and> interior g \<noteq> []"
    then obtain n where "n \<in> set (interior g)" by (cases "interior g") auto
    with a live_in have "AddNodalLoad [n] 0 (- cfg_live_load cfg) 0 0 0 0 \<in> set (calls t)"
      by blast
    then show "\<exists>c\<in>set (calls t). is_nodal_load c" by force
  qed
  have dead_in: "AddMemberUniformForce (g_bot_ch g) 2 (- cfg_dead_load cfg) 0 0 0 \<in> set (calls t)"
    if "0 < cfg_dead_load cfg"
  proof -
    have "AddMemberUniformForce (g_bot_ch g) 2 (- cfg_dead_load cfg) 0 0 0 \<in> set ?l1"
      using that by (auto simp: load_case1_calls)
    with q show ?thesis by auto
  qed
  have dead_only: "0 < cfg_dead_load cfg" if "c \<in> set (calls t)" "is_uniform_force 2 c" for c
  proof -
    from that(1) all have "c \<in> set ?pre \<or> c \<in> set ?l1 \<or> c \<in> set ?l2
        \<or> c \<in> {CreateNewLoadCombination ''75 PERCENT DL LL WL'' 3,
                AddLoadAndFactorToCombination 3 1 0.75, ?m, SaveModel True, PerformAnalysis 0}"
      by auto
    moreover have "c \<notin> set ?pre" using pre[of c] that(2) by (cases c) auto
    ultimately show ?thesis
      using that(2) by (auto simp: load_case1_calls load_case2_calls split: if_splits)
  qed
  have dead: "(\<exists>c\<in>set (calls t). is_uniform_force 2 c) \<longleftrightarrow> 0 < cfg_dead_load cfg"
    using dead_only dead_in by force
  have wind_in: "AddMemberUniformForce (wind_members g) 4 (cfg_wind_load cfg) 0 0 0 \<in> set (calls t)"
    if "0 < cfg_wind_load cfg"
  proof -
    have "AddMemberUniformForce (wind_members g) 4 (cfg_wind_load cfg) 0 0 0 \<in> set ?l2"
      using that by (auto simp: load_case2_calls)
    with q show ?thesis by auto
  qed
  have wind_only: "0 < cfg_wind_load cfg" if "c \<in> set (calls t)" "is_uniform_force 4 c" for c
  proof -
    from that(1) all have "c \<in> set ?pre \<or> c \<in> set ?l1 \<or> c \<in> set ?l2
        \<or> c \<in> {CreateNewLoadCombination ''75 PERCENT DL LL WL'' 3,
                AddLoadAndFactorToCombination 3 1 0.75, ?m, SaveModel True, PerformAnalysis 0}"
      by auto
    moreover have "c \<notin> set ?pre" using pre[of c] that(2) by (cases c) auto
    ultimately show ?thesis
      using that(2) by (auto simp: load_case1_calls load_case2_calls split: if_splits)
  qed
  have wind: "(\<exists>c\<in>set (calls t). is_uniform_force 4 c) \<longleftrightarrow> 0 < cfg_wind_load cfg"
    using wind_only wind_in by force
  have form: "(\<exists>n\<in>set (interior g). ns = [n]) \<and> fx = 0 \<and> fy = - cfg_live_load cfg \<and>
              fz = 0 \<and> mx = 0 \<and> my = 0 \<and> mz = 0"
    if "AddNodalLoad ns fx fy fz mx my mz \<in> set (calls t)" for ns fx fy fz mx my mz
  proof -
    let ?c = "AddNodalLoad ns fx fy fz mx my mz"
    from that all have "?c \<in> set ?pre \<or> ?c \<in> set ?l1 \<or> ?c \<in> set ?l2" by auto
    moreover have "?c \<notin> set ?pre" using pre[of ?c] by auto
    ultimately show ?thesis
      by (auto simp: load_case1_calls load_case2_calls split: if_splits)
  qed
  show ?thesis using c1 c2 c3 live live_in dead dead_in wind form by blast
qed

lemma compute_geometry_Inr_D:
  assumes "compute_geometry lib spn h p btype = Inr g"
  shows "p \<noteq> 0" and "\<exists>key. btype_key btype = Inr key"
proof -
  show p: "p \<noteq> 0"
    using assms by (auto simp: compute_geometry_def)
  show "\<exists>key. btype_key btype = Inr key"
  proof (cases "btype_key btype")
    case (Inl e)
    with assms p show ?thesis by (simp add: compute_geometry_def bind_res_Inl)
  next
    case (Inr key)
    then show ?thesis by blast
  qed
qed

lemma distinct_bottom:
  assumes "compute_geometry lib spn h p btype = Inr g"
  shows "distinct (g_bottom g)"
proof -
  from compute_geometry_Inr_D[OF assms] obtain key
    where "p \<noteq> 0" and "btype_key btype = Inr key" by blast
  from compute_geometry_fields(1)[OF this assms] show ?thesis by (simp add: distinct_ids)
qed

lemma length_butlast_tl: "length (butlast (tl xs)) = length xs - 2"
  by simp

lemma nth_butlast_tl: "j < length xs - 2 \<Longrightarrow> butlast (tl xs) ! j = xs ! Suc j"
  by (simp add: nth_butlast nth_tl)

lemma set_butlast_tl:
  "set (butlast (tl xs)) = {xs ! k |k. 0 < k \<and> k + 1 < length xs}"
proof -
  have "set (butlast (tl xs)) = {butlast (tl xs) ! j |j. j < length xs - 2}"
    by (simp add: set_conv_nth numeral_2_eq_2)
  also have "\<dots> = {xs ! Suc j |j. j < length xs - 2}"
  proof (intro set_eqI iffI)
    fix x assume "x \<in> {butlast (tl xs) ! j |j. j < length xs - 2}"
    then obtain j where "x = butlast (tl xs) ! j" "j < length xs - 2" by blast
    then have "x = xs ! Suc j \<and> j < length xs - 2" by (simp add: nth_butlast_tl)
    then show "x \<in> {xs ! Suc j |j. j < length xs - 2}" by blast
  next
    fix x assume "x \<in> {xs ! Suc j |j. j < length xs - 2}"
    then obtain j where "x = xs ! Suc j" "j < length xs - 2" by blast
    then have "x = butlast (tl xs) ! j \<and> j < length xs - 2" by (simp add: nth_butlast_tl)
    then show "x \<in> {butlast (tl xs) ! j |j. j < length xs - 2}" by blast
  qed
  also have "\<dots> = {xs ! k |k. 0 < k \<and> k + 1 < length xs}"
  proof (intro set_eqI iffI)
    fix x assume "x \<in> {xs ! Suc j |j. j < length xs - 2}"
    then obtain j where "x = xs ! Suc j" "j < length xs - 2" by blast
    then have "x = xs ! Suc j \<and> 0 < Suc j \<and> Suc j + 1 < length xs" by auto
    then show "x \<in> {xs ! k |k. 0 < k \<and> k + 1 < length xs}" by blast
  next
    fix x assume "x \<in> {xs ! k |k. 0 < k \<and> k + 1 < length xs}"
    then obtain k where k: "x = xs ! k" "0 < k" "k + 1 < length xs" by blast
    then obtain j where "k = Suc j" by (cases k) auto
    with k have "x = xs ! Suc j \<and> j < length xs - 2" by auto
    then show "x \<in> {xs ! Suc j |j. j < length xs - 2}" by blast
  qed
  finally show ?thesis .
qed

lemma butlast_tl_empty: "butlast (tl xs) \<noteq> [] \<longleftrightarrow> 2 < length xs"
proof -
  have "butlast (tl xs) \<noteq> [] \<longleftrightarrow> 0 < length xs - 2"
    by (simp only: length_greater_0_conv[symmetric] length_butlast_tl)
  also have "\<dots> \<longleftrightarrow> 2 < length xs" by auto
  finally show ?thesis .
qed

text \<open>
  Claim C10. In every export that gets through the load-creation steps (its last call,
  adding the second case to the combination, was made), both primary load cases and the
  combination were created whatever the load magnitudes. Nodal live loads were applied
  exactly when the live load is positive and there is an interior bottom node, that is,
  a bottom node that is neither the first nor the last: then each interior bottom node
  received one, of the live-load magnitude downwards, and in no export does any other node
  (in particular the first or the last bottom node) receive a nodal load. The dead uniform
  load was applied, to the bottom chords, exactly when the dead load is positive, and the
  wind uniform load exactly when the wind load is positive.
\<close>

theorem C10_load_creation:
  assumes "run_in_staad ev cfg = (out, t)"
    and "compute_geometry (libm ev) (cfg_span cfg) (cfg_height cfg) (cfg_panels cfg)
           (cfg_bridge_type cfg) = Inr g"
    and "AddLoadAndFactorToCombination 3 2 0.75 \<in> set (calls t)"
  shows "CreateNewPrimaryLoadEx2 Case1 ''DEAD AND LIVE LOAD'' 0 1 \<in> set (calls t) \<and>
         CreateNewPrimaryLoadEx2 Case2 ''WIND FROM LEFT'' 3 2 \<in> set (calls t) \<and>
         CreateNewLoadCombination ''75 PERCENT DL LL WL'' 3 \<in> set (calls t) \<and>
         ((\<exists>c\<in>set (calls t). is_nodal_load c) \<longleftrightarrow>
            0 < cfg_live_load cfg \<and> 2 < length (g_bottom g)) \<and>
         (0 < cfg_live_load cfg \<longrightarrow>
            (\<forall>k. 0 < k \<and> k + 1 < length (g_bottom g) \<longrightarrow>
               AddNodalLoad [g_bottom g ! k] 0 (- cfg_live_load cfg) 0 0 0 0
                 \<in> set (calls t))) \<and>
         (\<forall>ns fx fy fz mx my mz.
            AddNodalLoad ns fx fy fz mx my mz \<in> set (calls t) \<longrightarrow>
              (\<exists>k. 0 < k \<and> k + 1 < length (g_bottom g) \<and> ns = [g_bottom g ! k]) \<and>
              g_bottom g ! 0 \<notin> set ns \<and>
              g_bottom g ! (length (g_bottom g) - 1) \<notin> set ns \<and>
              fx = 0 \<and> fy = - cfg_live_load cfg \<and> fz = 0 \<and> mx = 0 \<and> my = 0 \<and> mz = 0) \<and>
         ((\<exists>c\<in>set (calls t). is_uniform_force 2 c) \<longleftrightarrow> 0 < cfg_dead_load cfg) \<and>
         (0 < cfg_dead_load cfg \<longrightarrow>
            AddMemberUniformForce (g_bot_ch g) 2 (- cfg_dead_load cfg) 0 0 0 \<in> set (calls t)) \<and>
         ((\<exists>c\<in>set (calls t). is_uniform_force 4 c) \<longleftrightarrow> 0 < cfg_wind_load cfg)"
proof -
  note l = load_creation_trace[OF assms]
  have int: "set (interior g) = {g_bottom g ! k |k. 0 < k \<and> k + 1 < length (g_bottom g)}"
    unfolding interior_def by (rule set_butlast_tl)
  have ne: "interior g \<noteq> [] \<longleftrightarrow> 2 < length (g_bottom g)"
    unfolding interior_def by (rule butlast_tl_empty)
  have d: "distinct (g_bottom g)" by (rule distinct_bottom[OF assms(2)])
  have live: "(\<exists>c\<in>set (calls t). is_nodal_load c) \<longleftrightarrow>
            0 < cfg_live_load cfg \<and> 2 < length (g_bottom g)"
    using l ne by simp
  have each: "AddNodalLoad [g_bottom g ! k] 0 (- cfg_live_load cfg) 0 0 0 0 \<in> set (calls t)"
    if "0 < cfg_live_load cfg" "0 < k \<and> k + 1 < length (g_bottom g)" for k
  proof -
    have "g_bottom g ! k \<in> set (interior g)" unfolding int using that(2) by blast
    with l that(1) show ?thesis by blast
  qed
  have only: "(\<exists>k. 0 < k \<and> k + 1 < length (g_bottom g) \<and> ns = [g_bottom g ! k]) \<and>
              g_bottom g ! 0 \<notin> set ns \<and>
              g_bottom g ! (length (g_bottom g) - 1) \<notin> set ns \<and>
              fx = 0 \<and> fy = - cfg_live_load cfg \<and> fz = 0 \<and> mx = 0 \<and> my = 0 \<and> mz = 0"
    if a: "AddNodalLoad ns fx fy fz mx my mz \<in> set (calls t)" for ns fx fy fz mx my mz
  proof -
    from l a have f: "(\<exists>n\<in>set (interior g). ns = [n]) \<and> fx = 0 \<and> fy = - cfg_live_load cfg \<and>
              fz = 0 \<and> mx = 0 \<and> my = 0 \<and> mz = 0"
      by blast
    then obtain k where k: "0 < k" "k + 1 < length (g_bottom g)" "ns = [g_bottom g ! k]"
      unfolding int by blast
    have lk: "k < length (g_bottom g)" "0 < length (g_bottom g)"
      "length (g_bottom g) - 1 < length (g_bottom g)" "k \<noteq> 0" "k \<noteq> length (g_bottom g) - 1"
      using k(1,2) by auto
    have "g_bottom g ! k \<noteq> g_bottom g ! 0"
      using d lk unfolding distinct_conv_nth by blast
    moreover have "g_bottom g ! k \<noteq> g_bottom g ! (length (g_bottom g) - 1)"
      using d lk unfolding distinct_conv_nth by blast
    ultimately show ?thesis using f k by auto
  qed
  show ?thesis using l live each only by blast
qed

lemma pratt_2_geometry:
  "compute_geometry lib 120 20 2 ''Pratt Truss'' =
     Inr \<lparr>g_nodes = [(1, 0, 0, 0), (2, 60, 0, 0), (3, 120, 0, 0), (4, 0, 20, 0),
                     (5, 60, 20, 0), (6, 120, 20, 0)],
          g_members = [(1, 1, 2), (2, 2, 3), (3, 4, 5), (4, 5, 6), (5, 1, 4),
                       (6, 2, 5), (7, 3, 6), (8, 4, 2), (9, 2, 6)],
          g_bottom = [1, 2, 3], g_top = [4, 5, 6], g_bot_ch = [1, 2],
          g_top_ch = [3, 4], g_verts = [5, 6, 7], g_diags = [8, 9]\<rparr>"
  by (simp add: geometry_eval)

theorem C10_load_creation_witness:
  "CreateNewPrimaryLoadEx2 Case1 ''DEAD AND LIVE LOAD'' 0 1 \<in>
     set (calls (snd (run_in_staad reachable_service
            (default_config\<lparr>cfg_panels := 2, cfg_dead_load := 0\<rparr>)))) \<and>
   AddNodalLoad [2] 0 (- 20) 0 0 0 0 \<in>
     set (calls (snd (run_in_staad reachable_service
            (default_config\<lparr>cfg_panels := 2, cfg_dead_load := 0\<rparr>)))) \<and>
   AddNodalLoad [1] 0 (- 20) 0 0 0 0 \<notin>
     set (calls (snd (run_in_staad reachable_service
            (default_config\<lparr>cfg_panels := 2, cfg_dead_load := 0\<rparr>)))) \<and>
   AddNodalLoad [3] 0 (- 20) 0 0 0 0 \<notin>
     set (calls (snd (run_in_staad reachable_service
            (default_config\<lparr>cfg_panels := 2, cfg_dead_load := 0\<rparr>)))) \<and>
   \<not> (\<exists>c\<in>set (calls (snd (run_in_staad reachable_service
            (default_config\<lparr>cfg_panels := 2, cfg_dead_load := 0\<rparr>)))). is_uniform_force 2 c) \<and>
   (\<exists>c\<in>set (calls (snd (run_in_staad reachable_service
            (default_config\<lparr>cfg_panels := 2, cfg_dead_load := 0\<rparr>)))). is_uniform_force 4 c)"
proof -
  let ?cfg = "default_config\<lparr>cfg_panels := 2, cfg_dead_load := 0\<rparr>"
  let ?g = "\<lparr>g_nodes = [(1, 0, 0, 0), (2, 60, 0, 0), (3, 120, 0, 0), (4, 0, 20, 0),
                     (5, 60, 20, 0), (6, 120, 20, 0)],
          g_members = [(1, 1, 2), (2, 2, 3), (3, 4, 5), (4, 5, 6), (5, 1, 4),
                       (6, 2, 5), (7, 3, 6), (8, 4, 2), (9, 2, 6)],
          g_bottom = [1, 2, 3], g_top = [4, 5, 6], g_bot_ch = [1, 2],
          g_top_ch = [3, 4], g_verts = [5, 6, 7], g_diags = [8, 9]\<rparr>"
  let ?t = "snd (run_in_staad reachable_service ?cfg)"
  have g: "compute_geometry (libm reachable_service) (cfg_span ?cfg) (cfg_height ?cfg)
             (cfg_panels ?cfg) (cfg_bridge_type ?cfg) = Inr ?g"
    by (simp add: default_config_def pratt_2_geometry)
  have r: "run_in_staad reachable_service ?cfg =
             (fst (run_in_staad reachable_service ?cfg), snd (run_in_staad reachable_service ?cfg))"
    by simp
  have m: "AddLoadAndFactorToCombination 3 2 0.75 \<in> set (calls ?t)"
    by (simp add: export_eval pratt_2_geometry idx_def)
  note c = C10_load_creation[OF r g m]
  have c1: "CreateNewPrimaryLoadEx2 Case1 ''DEAD AND LIVE LOAD'' 0 1 \<in> set (calls ?t)"
    using c by blast
  have live: "\<forall>k. 0 < k \<and> k + 1 < length (g_bottom ?g) \<longrightarrow>
               AddNodalLoad [g_bottom ?g ! k] 0 (- cfg_live_load ?cfg) 0 0 0 0 \<in> set (calls ?t)"
    using c by (simp add: default_config_def)
  from live[rule_format, of 1] have n2: "AddNodalLoad [2] 0 (- 20) 0 0 0 0 \<in> set (calls ?t)"
    by (simp add: default_config_def)
  have only: "\<forall>ns fx fy fz mx my mz.
            AddNodalLoad ns fx fy fz mx my mz \<in> set (calls ?t) \<longrightarrow>
              g_bottom ?g ! 0 \<notin> set ns \<and> g_bottom ?g ! (length (g_bottom ?g) - 1) \<notin> set ns"
    using c by blast
  have n1: "AddNodalLoad [1] 0 (- 20) 0 0 0 0 \<notin> set (calls ?t)"
    using only[rule_format, of "[1]" 0 "- 20" 0 0 0 0] by auto
  have n3: "AddNodalLoad [3] 0 (- 20) 0 0 0 0 \<notin> set (calls ?t)"
    using only[rule_format, of "[3]" 0 "- 20" 0 0 0 0] by auto
  have dead: "\<not> (\<exists>c\<in>set (calls ?t). is_uniform_force 2 c)"
    using c by (simp add: default_config_def)
  have wind: "\<exists>c\<in>set (calls ?t). is_uniform_force 4 c"
    using c by (simp add: default_config_def)
  show ?thesis using c1 n2 n1 n3 dead wind by blast
qed

lemma exec_calls_grow: "prefix (calls t) (calls (fst (exec r steps t)))"
  by (induction r steps t rule: exec.induct) (auto dest: append_prefixD)

lemma try_steps_connect: "Connect \<in> set (calls (fst (exec r (try_steps cfg lu fu g) t)))"
proof -
  obtain rest where s: "try_steps cfg lu fu g = Log MsgConnecting Plain # Call Connect # rest"
    by (simp add: try_steps_def geometry_steps_def)
  let ?t = "t\<lparr>logged := logged t @ [(MsgConnecting, Plain)]\<rparr>"
  show ?thesis
  proof (cases "r (calls ?t) Connect")
    case True
    then show ?thesis by (simp add: s)
  next
    case False
    have "Connect \<in> set (calls (?t\<lparr>calls := calls ?t @ [Connect]\<rparr>))" by simp
    also have "\<dots> \<subseteq> set (calls (fst (exec r rest (?t\<lparr>calls := calls ?t @ [Connect]\<rparr>))))"
      by (rule set_mono_prefix[OF exec_calls_grow])
    finally show ?thesis using False by (simp add: s)
  qed
qed

lemma compute_geometry_negative:
  assumes "p < 0" and "btype_key btype = Inr key"
    and "compute_geometry lib spn h p btype = Inr g"
  shows "g_nodes g = [] \<and> g_members g = []"
proof -
  have p: "p \<noteq> 0" using assms(1) by simp
  note c = compute_geometry_ids[OF p assms(2,3)]
  have "length (g_nodes g) = 0"
    using assms(1) by (simp add: c(2) length_top_coords)
  moreover have "length (all_edges key p) = 0"
    using assms(1)
    by (simp add: all_edges_def length_bottom_chord_edges length_top_chord_edges
        length_vertical_edges length_diagonal_edges)
  ultimately show ?thesis by (simp add: c(3) ids_0)
qed

lemma pratt_1_geometry:
  "compute_geometry lib spn 20 1 ''Pratt Truss'' =
     Inr \<lparr>g_nodes = [(1, 0, 0, 0), (2, round4 spn, 0, 0), (3, 0, 20, 0), (4, round4 spn, 20, 0)],
          g_members = [(1, 1, 2), (2, 3, 4), (3, 1, 3), (4, 2, 4), (5, 1, 4)],
          g_bottom = [1, 2], g_top = [3, 4], g_bot_ch = [1],
          g_top_ch = [2], g_verts = [3, 4], g_diags = [5]\<rparr>"
  by (simp add: compute_geometry_def bind_res_def top_nodes_def bottom_nodes_def range_int_def
      upto.simps put_top_def put_bottom_def bottom_chords_def topology_members_def
      pratt_howe_members_def connect_def idx_def add_member_def btype_key_Pratt round4_0)

text \<open>
  Claim C2, as stated, has every input with panelCount < 1, span <= 0 or height <= 0 fail
  with an InvalidGeometry condition, rejected before any call to the service. Neither
  function validates its input: with span -5 the generator returns a geometry and the
  exporter connects to the service.
\<close>

theorem C2_negative_span_counterexample:
  "\<not> isl (compute_geometry exact_math (- 5) 20 1 ''Pratt Truss'') \<and>
   Connect \<in> set (calls (snd (run_in_staad reachable_service
                 (default_config\<lparr>cfg_span := - 5, cfg_panels := 1\<rparr>))))"
  by (simp add: export_eval pratt_1_geometry idx_def)

text \<open>
  Claim C2, amended. For every input with panelCount = 0, generation fails, with a
  ZeroDivisionError, and for such a configuration the exporter makes no call to the
  external modelling service. An input with panelCount < 0, span <= 0 or height <= 0 is
  not rejected: for every panelCount other than 0 (and a bridge type that has a first word)
  generation returns a geometry, an empty one when panelCount < 0, and an exporter that has
  its service binding and a known unit system goes on to call the service.
\<close>

theorem C2_malformed_configurations:
  "compute_geometry lib spn height 0 btype = Inl ZeroDivisionError \<and>
   (cfg_panels cfg0 = 0 \<longrightarrow> calls (snd (run_in_staad ev cfg0)) = []) \<and>
   (panels \<noteq> 0 \<and> btype_key btype = Inr key \<longrightarrow>
      (\<exists>g. compute_geometry lib spn height panels btype = Inr g \<and>
           (panels < 0 \<longrightarrow> g_nodes g = [] \<and> g_members g = []))) \<and>
   (openstaadpy_installed ev \<and> cfg_unit cfg \<in> fst ` set UNIT_OPTIONS \<and>
    cfg_panels cfg \<noteq> 0 \<and> btype_key (cfg_bridge_type cfg) = Inr key' \<longrightarrow>
      Connect \<in> set (calls (snd (run_in_staad ev cfg))))"
proof -
  have 1: "compute_geometry lib spn height 0 btype = Inl ZeroDivisionError"
    by (simp add: compute_geometry_def)
  have 2: "calls (snd (run_in_staad ev cfg0)) = []" if "cfg_panels cfg0 = 0"
    using that
    by (auto simp: run_in_staad_def compute_geometry_def split: sum.splits prod.splits)
  have 3: "\<exists>g. compute_geometry lib spn height panels btype = Inr g \<and>
           (panels < 0 \<longrightarrow> g_nodes g = [] \<and> g_members g = [])"
    if b: "panels \<noteq> 0" "btype_key btype = Inr key"
  proof -
    obtain g where g: "compute_geometry lib spn height panels btype = Inr g"
      using compute_geometry_returns[OF b] by blast
    with compute_geometry_negative[OF _ b(2) g] show ?thesis by blast
  qed
  have 4: "Connect \<in> set (calls (snd (run_in_staad ev cfg)))"
    if a: "openstaadpy_installed ev" "cfg_unit cfg \<in> fst ` set UNIT_OPTIONS"
      "cfg_panels cfg \<noteq> 0" "btype_key (cfg_bridge_type cfg) = Inr key'"
  proof -
    obtain lu fu where u: "getitem UNIT_OPTIONS (cfg_unit cfg) = Inr (lu, fu)"
      using a(2) by (auto simp: getitem_def UNIT_OPTIONS_def)
    obtain g where g: "compute_geometry (libm ev) (cfg_span cfg) (cfg_height cfg)
        (cfg_panels cfg) (cfg_bridge_type cfg) = Inr g"
      using compute_geometry_returns[OF a(3,4)] by blast
    let ?x = "exec (service_raises ev) (try_steps cfg lu fu g) \<lparr>calls = [], logged = []\<rparr>"
    have "calls (snd (run_in_staad ev cfg)) = calls (fst ?x)"
      using a(1) u g by (auto simp: run_in_staad_def split: prod.splits option.splits)
    then show ?thesis using try_steps_connect[of "service_raises ev" cfg lu fu g] by simp
  qed
  show ?thesis using 1 2 3 4 by blast
qed

theorem C2_malformed_configurations_witness:
  "compute_geometry exact_math 120 20 0 ''Pratt Truss'' = Inl ZeroDivisionError \<and>
   calls (snd (run_in_staad reachable_service (default_config\<lparr>cfg_panels := 0\<rparr>))) = [] \<and>
   (\<exists>g. compute_geometry exact_math 120 20 (- 2) ''Pratt Truss'' = Inr g \<and>
        g_nodes g = [] \<and> g_members g = []) \<and>
   Connect \<in> set (calls (snd (run_in_staad reachable_service
                 (default_config\<lparr>cfg_height := - 3\<rparr>))))"
  using C2_malformed_configurations[of exact_math 120 20 "''Pratt Truss''"
      "default_config\<lparr>cfg_panels := 0\<rparr>" reachable_service "- 2" "''pratt''"
      "default_config\<lparr>cfg_height := - 3\<rparr>" "''pratt''"]
  by (simp add: btype_key_Pratt default_config_def reachable_service_def UNIT_OPTIONS_def)

text \<open>
  Claim C7: the exporter gives the first bottom node the left support type and the last
  bottom node the right support type, each exactly the type chosen from Fixed, Pinned and
  Roller. The code at the right support Roller, a choice the form offers: the export
  succeeds, and the last bottom node has received a fixed support.
\<close>

theorem C7_roller_support_is_fixed:
  "CreateSupportFixed Sid2 \<in> set (calls (snd (run_in_staad reachable_service
       (default_config\<lparr>cfg_panels := 1, cfg_support_right := ''Roller''\<rparr>)))) \<and>
   AssignSupportToNode [2] Sid2 \<in> set (calls (snd (run_in_staad reachable_service
       (default_config\<lparr>cfg_panels := 1, cfg_support_right := ''Roller''\<rparr>)))) \<and>
   CreateSupportPinned Sid2 \<notin> set (calls (snd (run_in_staad reachable_service
       (default_config\<lparr>cfg_panels := 1, cfg_support_right := ''Roller''\<rparr>)))) \<and>
   fst (run_in_staad reachable_service
       (default_config\<lparr>cfg_panels := 1, cfg_support_right := ''Roller''\<rparr>)) = Returns True"
  by (simp add: export_eval pratt_1_geometry idx_def)

text \<open>
  Claim C9: every failure during an export, geometry computation and configuration lookup
  included, is caught in the exporter and turned into a reported message and the result
  \<^verbatim>\<open>False\<close>. The code at zero panels: the geometry is computed before the \<^verbatim>\<open>try\<close>
  block, and the ZeroDivisionError leaves \<^verbatim>\<open>run_in_staad\<close>.
\<close>

theorem C9_geometry_error_propagates:
  "fst (run_in_staad reachable_service (default_config\<lparr>cfg_panels := 0\<rparr>)) =
     Propagates ZeroDivisionError"
  by (simp add: export_eval compute_geometry_def)

end
